theory Spec2Isabelle
  imports Main
begin

section \<open>Syntax trees\<close>

text \<open>
  The walker works on ESTree nodes: objects tagged by a \<open>type\<close> string. The kinds that
  \<open>transform\<close> or \<open>extractDeclaration\<close> treat by their own fields are constructors of
  \<open>node\<close>; every other kind is a \<open>Node\<close> carrying its tag, one scalar field (the
  \<open>operator\<close> of an operator application, which is the only scalar the policy check
  reads; the \<open>raw\<close> text of a literal; the \<open>name\<close> of a private identifier; empty
  otherwise) and its child positions in source order, where \<open>None\<close> is a \<open>null\<close>
  child (an array hole, an absent optional child). \<open>OtherKind s\<close> is a node whose
  tag \<open>s\<close> is none of the tags named here (a statement, for one).
\<close>

datatype kind =
    Literal | ArrayExpression | ObjectExpression | ChainExpression
  | LogicalExpression | SequenceExpression | ConditionalExpression | TemplateLiteral
  | UnaryExpression | BinaryExpression
  | UpdateExpression | AssignmentExpression
  | NewExpression | CallExpression | TaggedTemplateExpression
  | ThisExpression
  | FunctionExpression | ClassExpression | MetaProperty
  | YieldExpression | AwaitExpression | ImportExpression
  | SpreadElement | TemplateElement
  | BlockStatement | Super | PrivateIdentifier
  | OtherKind string

datatype node =
    Identifier string
  | ObjectPattern "node list"
  | ArrayPattern "node option list"
  | RestElement node
  | AssignmentPattern node node
  | Property node node bool bool
  | MemberExpression node node bool bool
  | ArrowFunctionExpression "node list" node bool
  | Node kind string "node option list"

text \<open>
  Field order: \<open>Property key value computed shorthand\<close>,
  \<open>MemberExpression object property computed optional\<close>,
  \<open>ArrowFunctionExpression params body async\<close>,
  \<open>AssignmentPattern left right\<close>, \<open>Node type operator children\<close>.
\<close>

fun kind_name :: "kind \<Rightarrow> string" where
  "kind_name Literal = ''Literal''"
| "kind_name ArrayExpression = ''ArrayExpression''"
| "kind_name ObjectExpression = ''ObjectExpression''"
| "kind_name ChainExpression = ''ChainExpression''"
| "kind_name LogicalExpression = ''LogicalExpression''"
| "kind_name SequenceExpression = ''SequenceExpression''"
| "kind_name ConditionalExpression = ''ConditionalExpression''"
| "kind_name TemplateLiteral = ''TemplateLiteral''"
| "kind_name UnaryExpression = ''UnaryExpression''"
| "kind_name BinaryExpression = ''BinaryExpression''"
| "kind_name UpdateExpression = ''UpdateExpression''"
| "kind_name AssignmentExpression = ''AssignmentExpression''"
| "kind_name NewExpression = ''NewExpression''"
| "kind_name CallExpression = ''CallExpression''"
| "kind_name TaggedTemplateExpression = ''TaggedTemplateExpression''"
| "kind_name ThisExpression = ''ThisExpression''"
| "kind_name FunctionExpression = ''FunctionExpression''"
| "kind_name ClassExpression = ''ClassExpression''"
| "kind_name MetaProperty = ''MetaProperty''"
| "kind_name YieldExpression = ''YieldExpression''"
| "kind_name AwaitExpression = ''AwaitExpression''"
| "kind_name ImportExpression = ''ImportExpression''"
| "kind_name SpreadElement = ''SpreadElement''"
| "kind_name TemplateElement = ''TemplateElement''"
| "kind_name BlockStatement = ''BlockStatement''"
| "kind_name Super = ''Super''"
| "kind_name PrivateIdentifier = ''PrivateIdentifier''"
| "kind_name (OtherKind s) = s"

section \<open>Errors and configuration\<close>

text \<open>
  The exceptions the code throws, with their messages. \<open>AssertionError\<close> is what
  \<open>ok\<close> of the package devlop throws on a falsy argument in its development
  build, which is the behaviour its type \<open>asserts value\<close> declares (the
  production build makes \<open>ok\<close> do nothing). The last two are raised by the
  runtime, not by the code: \<open>RangeError\<close> when the call stack is exhausted and
  \<open>TypeError\<close> when a field of something that is not an object is read; only
  the walker on a store of objects, further down, can meet them.
\<close>

datatype error =
    SyntaxError string
  | ReferenceError string
  | Error string
  | AssertionError
  | RangeError
  | TypeError

record enables =
  enableThis :: bool
  enableCall :: bool
  enableArrow :: bool
  enableUpdate :: bool
  enableInspect :: bool

definition default_enables :: enables where
  "default_enables =
     \<lparr>enableThis = False, enableCall = True, enableArrow = True,
      enableUpdate = False, enableInspect = False\<rparr>"

section \<open>isIdent (src/util.ts)\<close>

text \<open>
  \<open>isIdent\<close> tests a name against a regular expression over the Unicode classes
  \<open>ID_Start\<close> and \<open>ID_Continue\<close> and against the set of the package
  reserved-identifiers. Neither table is in the repository: they are the fields of
  \<open>host\<close>. The field \<open>ID_Continue\<close> stands for the whole class of the regular
  expression's second bracket but \<open>$\<close>, the two joiners included.
\<close>

record host =
  ID_Start :: "char \<Rightarrow> bool"
  ID_Continue :: "char \<Rightarrow> bool"
  reservedIdentifiers :: "string list"

definition IDENTIFIER_REGEX :: "host \<Rightarrow> string \<Rightarrow> bool" where
  "IDENTIFIER_REGEX h name =
     (case name of
        [] \<Rightarrow> False
      | c # cs \<Rightarrow>
          (c = CHR ''$'' \<or> c = CHR ''_'' \<or> ID_Start h c) \<and>
          list_all (\<lambda>d. d = CHR ''$'' \<or> ID_Continue h d) cs)"

definition isIdent :: "host \<Rightarrow> string \<Rightarrow> bool" where
  "isIdent h name = (IDENTIFIER_REGEX h name \<and> name \<notin> set (reservedIdentifiers h))"

section \<open>The binding scanner\<close>

text \<open>
  \<open>extractDeclaration\<close> pushes onto the scope array; here it returns the extended
  scope. The two loops of the source are \<open>extractProperties\<close> and \<open>extractElements\<close>.
\<close>

fun extractDeclaration :: "node \<Rightarrow> string list \<Rightarrow> error + string list"
  and extractProperties :: "node list \<Rightarrow> string list \<Rightarrow> error + string list"
  and extractElements :: "node option list \<Rightarrow> string list \<Rightarrow> error + string list"
where
  "extractDeclaration (Identifier name) scope = Inr (scope @ [name])"
| "extractDeclaration (ObjectPattern properties) scope = extractProperties properties scope"
| "extractDeclaration (ArrayPattern elements) scope = extractElements elements scope"
| "extractDeclaration (RestElement argument) scope = extractDeclaration argument scope"
| "extractDeclaration (AssignmentPattern left right) scope = extractDeclaration left scope"
| "extractDeclaration (Property k v c s) scope = Inl (Error ''unknown Pattern syntax'')"
| "extractDeclaration (MemberExpression ob p c opt) scope = Inl (Error ''unknown Pattern syntax'')"
| "extractDeclaration (ArrowFunctionExpression ps b a) scope = Inl (Error ''unknown Pattern syntax'')"
| "extractDeclaration (Node k opr cs) scope = Inl (Error ''unknown Pattern syntax'')"
| "extractProperties [] scope = Inr scope"
| "extractProperties (RestElement argument # ps) scope =
     (case extractDeclaration argument scope of
        Inl e \<Rightarrow> Inl e
      | Inr scope' \<Rightarrow> extractProperties ps scope')"
| "extractProperties (Property k v c s # ps) scope =
     (case extractDeclaration v scope of
        Inl e \<Rightarrow> Inl e
      | Inr scope' \<Rightarrow> extractProperties ps scope')"
| "extractProperties (p # ps) scope = Inl (SyntaxError ''unknown ObjectPattern syntax'')"
| "extractElements [] scope = Inr scope"
| "extractElements (None # es) scope = extractElements es scope"
| "extractElements (Some e # es) scope =
     (case extractDeclaration e scope of
        Inl e \<Rightarrow> Inl e
      | Inr scope' \<Rightarrow> extractElements es scope')"

text \<open>The loop \<open>for (const p of node.params) extractDeclaration(p, state)\<close>.\<close>

fun extractParams :: "node list \<Rightarrow> string list \<Rightarrow> error + string list" where
  "extractParams [] scope = Inr scope"
| "extractParams (p # ps) scope =
     (case extractDeclaration p scope of
        Inl e \<Rightarrow> Inl e
      | Inr scope' \<Rightarrow> extractParams ps scope')"

section \<open>The policy check on entry\<close>

definition test :: "bool \<Rightarrow> string \<Rightarrow> error + unit" where
  "test cond err = (if \<not> cond then Inl (SyntaxError err) else Inr ())"

fun ENTER :: "enables \<Rightarrow> node \<Rightarrow> error + unit" where
  "ENTER en (Identifier name) = Inr ()"
| "ENTER en (MemberExpression ob p c opt) = Inr ()"
| "ENTER en (ArrowFunctionExpression ps b a) =
     test (enableArrow en) (''expression ArrowFunctionExpression is disabled'')"
| "ENTER en (Property k v c s) = Inr ()"
| "ENTER en (ObjectPattern ps) = Inr ()"
| "ENTER en (ArrayPattern es) = Inr ()"
| "ENTER en (RestElement a) = Inr ()"
| "ENTER en (AssignmentPattern l r) = Inr ()"
| "ENTER en (Node k opr cs) =
     (if k \<in> {Literal, ArrayExpression, ObjectExpression, ChainExpression, LogicalExpression,
               SequenceExpression, ConditionalExpression, TemplateLiteral}
      then Inr ()
      else if k \<in> {UnaryExpression, BinaryExpression}
      then test ((enableUpdate en \<or> opr \<noteq> ''delete'') \<and>
                 (enableInspect en \<or>
                    (opr \<noteq> ''typeof'' \<and> opr \<noteq> ''in'' \<and> opr \<noteq> ''instanceof'')))
                (''operator '' @ opr @ '' is disabled'')
      else if k \<in> {UpdateExpression, AssignmentExpression}
      then test (enableUpdate en) (''operator '' @ opr @ '' is disabled'')
      else if k \<in> {NewExpression, CallExpression, TaggedTemplateExpression}
      then test (enableCall en) (''expression '' @ kind_name k @ '' is disabled'')
      else if k = ThisExpression
      then test (enableThis en) (''expression '' @ kind_name k @ '' is disabled'')
      else if k \<in> {FunctionExpression, ClassExpression, MetaProperty, YieldExpression,
                    AwaitExpression, ImportExpression}
      then test False (''expression '' @ kind_name k @ '' is not supported'')
      else if k \<in> {SpreadElement, TemplateElement}
      then Inr ()
      else Inl (SyntaxError (''unknown node type '' @ kind_name k)))"

section \<open>The walker\<close>

text \<open>
  Modelled from the spec: the function \<open>walker\<close> of the package immer-walker, which is
  not in the repository. From the spec's section 4.3: on entering any node the policy
  check runs first; a kind with a handler is rewritten by its handler, which alone
  decides which children are walked; every other kind walks every child position left to
  right and is rebuilt only if a child's reference changed, else the node itself is
  returned.

  The scope array \<open>state\<close> is shared and mutated in place: \<open>walk\<close> takes it and
  returns it. The boolean returned with the node says that the result is the very object
  that was passed in: it is what the source's \<open>===\<close> on a result of \<open>walk\<close>
  computes, true where a handler returns \<open>node\<close> and false where it builds an
  object literal.
\<close>

definition is_kind :: "kind \<Rightarrow> node \<Rightarrow> bool" where
  "is_kind k n = (case n of Node k' opr cs \<Rightarrow> k' = k | _ \<Rightarrow> False)"

definition ok :: "bool \<Rightarrow> error + unit" where
  "ok v = (if v then Inr () else Inl AssertionError)"

definition global_object :: "string \<Rightarrow> node" where
  "global_object global =
     (if global = ''this'' then Node ThisExpression [] [] else Identifier global)"

function (sequential) walk :: "enables \<Rightarrow> string option \<Rightarrow> node \<Rightarrow> string list
               \<Rightarrow> error + (node \<times> bool \<times> string list)"
  and visit :: "enables \<Rightarrow> string option \<Rightarrow> node \<Rightarrow> string list
               \<Rightarrow> error + (node \<times> bool \<times> string list)"
  and walk_nodes :: "enables \<Rightarrow> string option \<Rightarrow> node list \<Rightarrow> string list
               \<Rightarrow> error + (node list \<times> bool \<times> string list)"
  and walk_children :: "enables \<Rightarrow> string option \<Rightarrow> node option list \<Rightarrow> string list
               \<Rightarrow> error + (node option list \<times> bool \<times> string list)"
where
  "walk en global n state =
     (case ENTER en n of
        Inl e \<Rightarrow> Inl e
      | Inr u \<Rightarrow> visit en global n state)"
| "visit en global (Identifier name) state =
     (if name \<in> set state then Inr (Identifier name, True, state)
      else case global of
        None \<Rightarrow>
          Inl (ReferenceError (''variable '' @ [CHR 0x27] @ name @ [CHR 0x27] @ '' is not defined''))
      | Some g \<Rightarrow>
          Inr (MemberExpression (global_object g) (Identifier name) False False, False, state))"
| "visit en global (ArrowFunctionExpression params body async) state =
     (if is_kind BlockStatement body
      then Inl (SyntaxError ''arrow function with block statement is not allowed'')
      else
        (case extractParams params state of
           Inl e \<Rightarrow> Inl e
         | Inr state1 \<Rightarrow>
             (case walk en global body state1 of
                Inl e \<Rightarrow> Inl e
              | Inr (body', same, state2) \<Rightarrow>
                  Inr (if same then ArrowFunctionExpression params body async
                       else ArrowFunctionExpression params body' async,
                       same, take (length state) state2))))"
| "visit en global (MemberExpression object property computed optional) state =
     (case ok (\<not> is_kind Super object) of
        Inl e \<Rightarrow> Inl e
      | Inr u \<Rightarrow>
     (case ok (\<not> is_kind PrivateIdentifier property) of
        Inl e \<Rightarrow> Inl e
      | Inr u \<Rightarrow>
     (case walk en global object state of
        Inl e \<Rightarrow> Inl e
      | Inr (object', same1, state1) \<Rightarrow>
     (case (if computed then walk en global property state1
            else Inr (property, True, state1)) of
        Inl e \<Rightarrow> Inl e
      | Inr (property', same2, state2) \<Rightarrow>
          Inr (if same1 \<and> same2 then MemberExpression object property computed optional
               else MemberExpression object' property' computed optional,
               same1 \<and> same2, state2)))))"
| "visit en global (Property key value computed shorthand) state =
     (case ok (\<not> is_kind PrivateIdentifier key) of
        Inl e \<Rightarrow> Inl e
      | Inr u \<Rightarrow>
     (case (if computed then walk en global key state else Inr (key, True, state)) of
        Inl e \<Rightarrow> Inl e
      | Inr (key', same1, state1) \<Rightarrow>
     (case walk en global value state1 of
        Inl e \<Rightarrow> Inl e
      | Inr (value', same2, state2) \<Rightarrow>
          Inr (if same1 \<and> same2 then Property key value computed shorthand
               else Property key' value' computed shorthand,
               same1 \<and> same2, state2))))"
| "visit en global (ObjectPattern properties) state =
     (case walk_nodes en global properties state of
        Inl e \<Rightarrow> Inl e
      | Inr (properties', same, state1) \<Rightarrow>
          Inr (if same then ObjectPattern properties else ObjectPattern properties',
               same, state1))"
| "visit en global (ArrayPattern elements) state =
     (case walk_children en global elements state of
        Inl e \<Rightarrow> Inl e
      | Inr (elements', same, state1) \<Rightarrow>
          Inr (if same then ArrayPattern elements else ArrayPattern elements',
               same, state1))"
| "visit en global (RestElement argument) state =
     (case walk en global argument state of
        Inl e \<Rightarrow> Inl e
      | Inr (argument', same, state1) \<Rightarrow>
          Inr (if same then RestElement argument else RestElement argument',
               same, state1))"
| "visit en global (AssignmentPattern left right) state =
     (case walk en global left state of
        Inl e \<Rightarrow> Inl e
      | Inr (left', same1, state1) \<Rightarrow>
     (case walk en global right state1 of
        Inl e \<Rightarrow> Inl e
      | Inr (right', same2, state2) \<Rightarrow>
          Inr (if same1 \<and> same2 then AssignmentPattern left right
               else AssignmentPattern left' right',
               same1 \<and> same2, state2)))"
| "visit en global (Node k opr children) state =
     (case walk_children en global children state of
        Inl e \<Rightarrow> Inl e
      | Inr (children', same, state1) \<Rightarrow>
          Inr (if same then Node k opr children else Node k opr children',
               same, state1))"
| "walk_nodes en global [] state = Inr ([], True, state)"
| "walk_nodes en global (n # ns) state =
     (case walk en global n state of
        Inl e \<Rightarrow> Inl e
      | Inr (n', same1, state1) \<Rightarrow>
     (case walk_nodes en global ns state1 of
        Inl e \<Rightarrow> Inl e
      | Inr (ns', same2, state2) \<Rightarrow> Inr (n' # ns', same1 \<and> same2, state2)))"
| "walk_children en global [] state = Inr ([], True, state)"
| "walk_children en global (None # cs) state =
     (case walk_children en global cs state of
        Inl e \<Rightarrow> Inl e
      | Inr (cs', same, state1) \<Rightarrow> Inr (None # cs', same, state1))"
| "walk_children en global (Some c # cs) state =
     (case walk en global c state of
        Inl e \<Rightarrow> Inl e
      | Inr (c', same1, state1) \<Rightarrow>
     (case walk_children en global cs state1 of
        Inl e \<Rightarrow> Inl e
      | Inr (cs', same2, state2) \<Rightarrow> Inr (Some c' # cs', same1 \<and> same2, state2)))"
  by pat_completeness auto

termination
  by (relation "measure (\<lambda>x. case x of
         Inl (Inl (en, g, n, st)) \<Rightarrow> 2 * size n + 1
       | Inl (Inr (en, g, n, st)) \<Rightarrow> 2 * size n
       | Inr (Inl (en, g, ns, st)) \<Rightarrow> 2 * size_list size ns + 1
       | Inr (Inr (en, g, cs, st)) \<Rightarrow> 2 * size_list (size_option size) cs + 1)") auto

section \<open>transform\<close>

text \<open>
  The loop over \<open>params.entries()\<close>: \<open>params.indexOf(param, idx + 1) + 1\<close> is truthy
  exactly when \<open>param\<close> occurs again after position \<open>idx\<close>.
\<close>

fun check_params :: "host \<Rightarrow> string list \<Rightarrow> error + unit" where
  "check_params h [] = Inr ()"
| "check_params h (param # rest) =
     (if \<not> isIdent h param
      then Inl (SyntaxError (''parameter name '' @ [CHR 0x27] @ param @ [CHR 0x27] @
                             '' is not a valid identifier''))
      else if param \<in> set rest
      then Inl (SyntaxError (''duplicate parameter name '' @ [CHR 0x27] @ param @ [CHR 0x27]))
      else check_params h rest)"

definition check_global :: "string list \<Rightarrow> string option \<Rightarrow> error + unit" where
  "check_global params global =
     (case global of
        None \<Rightarrow> Inr ()
      | Some g \<Rightarrow>
          if g \<noteq> ''this'' \<and> g \<notin> set params
          then Inl (SyntaxError (''global object name '' @ [CHR 0x27] @ g @ [CHR 0x27] @
                                 '' is not in parameter list''))
          else Inr ())"

definition transform :: "host \<Rightarrow> node \<Rightarrow> string list \<Rightarrow> string option \<Rightarrow> enables
                           \<Rightarrow> error + node" where
  "transform h ast params global en =
     (case check_params h params of
        Inl e \<Rightarrow> Inl e
      | Inr u \<Rightarrow>
     (case check_global params global of
        Inl e \<Rightarrow> Inl e
      | Inr u \<Rightarrow>
     (case walk en global ast params of
        Inl e \<Rightarrow> Inl e
      | Inr (ast', same, state) \<Rightarrow> Inr ast')))"

section \<open>The names a pattern binds, in the spec's words\<close>

text \<open>
  Section 4.2 of the spec, as a function with no scope argument: a plain name binds
  itself; an object pattern binds what its entries bind, a rest capture through its
  target and a property entry through its value; an array pattern binds what its present
  elements bind; a rest capture binds what its target binds; a default-value pattern
  binds what its left-hand target binds. \<open>None\<close> is the pattern error.
\<close>

fun bound_names :: "node \<Rightarrow> string list option"
  and entries_names :: "node list \<Rightarrow> string list option"
  and elements_names :: "node option list \<Rightarrow> string list option"
where
  "bound_names (Identifier name) = Some [name]"
| "bound_names (ObjectPattern entries) = entries_names entries"
| "bound_names (ArrayPattern elements) = elements_names elements"
| "bound_names (RestElement target) = bound_names target"
| "bound_names (AssignmentPattern target dflt) = bound_names target"
| "bound_names (Property k v c s) = None"
| "bound_names (MemberExpression ob p c opt) = None"
| "bound_names (ArrowFunctionExpression ps b a) = None"
| "bound_names (Node k opr cs) = None"
| "entries_names [] = Some []"
| "entries_names (RestElement target # es) =
     (case bound_names target of
        None \<Rightarrow> None
      | Some ns \<Rightarrow> map_option ((@) ns) (entries_names es))"
| "entries_names (Property k v c s # es) =
     (case bound_names v of
        None \<Rightarrow> None
      | Some ns \<Rightarrow> map_option ((@) ns) (entries_names es))"
| "entries_names (e # es) = None"
| "elements_names [] = Some []"
| "elements_names (None # es) = elements_names es"
| "elements_names (Some e # es) =
     (case bound_names e of
        None \<Rightarrow> None
      | Some ns \<Rightarrow> map_option ((@) ns) (elements_names es))"

text \<open>The two errors the scanner raises on a malformed pattern.\<close>

definition pattern_error :: "error + string list \<Rightarrow> bool" where
  "pattern_error r =
     (r = Inl (Error ''unknown Pattern syntax'') \<or>
      r = Inl (SyntaxError ''unknown ObjectPattern syntax''))"

section \<open>What the result is certified for\<close>

text \<open>
  The positions of a tree that the walker reaches are: the root; the body of an arrow
  function (not its parameter patterns); the object of a member expression and, when it
  is computed, its property; the value of a property and, when it is computed, its key;
  every child of any other node. \<open>allowed en n\<close> says that the policy check admits
  every node of \<open>n\<close> in such a position.
\<close>

fun allowed :: "enables \<Rightarrow> node \<Rightarrow> bool"
  and allowed_nodes :: "enables \<Rightarrow> node list \<Rightarrow> bool"
  and allowed_children :: "enables \<Rightarrow> node option list \<Rightarrow> bool"
where
  "allowed en (Identifier name) = (ENTER en (Identifier name) = Inr ())"
| "allowed en (ArrowFunctionExpression params body async) =
     (ENTER en (ArrowFunctionExpression params body async) = Inr () \<and> allowed en body)"
| "allowed en (MemberExpression object property computed optional) =
     (ENTER en (MemberExpression object property computed optional) = Inr () \<and>
      allowed en object \<and> (if computed then allowed en property else True))"
| "allowed en (Property key value computed shorthand) =
     (ENTER en (Property key value computed shorthand) = Inr () \<and>
      (if computed then allowed en key else True) \<and> allowed en value)"
| "allowed en (ObjectPattern properties) =
     (ENTER en (ObjectPattern properties) = Inr () \<and> allowed_nodes en properties)"
| "allowed en (ArrayPattern elements) =
     (ENTER en (ArrayPattern elements) = Inr () \<and> allowed_children en elements)"
| "allowed en (RestElement argument) =
     (ENTER en (RestElement argument) = Inr () \<and> allowed en argument)"
| "allowed en (AssignmentPattern left right) =
     (ENTER en (AssignmentPattern left right) = Inr () \<and> allowed en left \<and> allowed en right)"
| "allowed en (Node k opr children) =
     (ENTER en (Node k opr children) = Inr () \<and> allowed_children en children)"
| "allowed_nodes en [] = True"
| "allowed_nodes en (n # ns) = (allowed en n \<and> allowed_nodes en ns)"
| "allowed_children en [] = True"
| "allowed_children en (None # cs) = allowed_children en cs"
| "allowed_children en (Some c # cs) = (allowed en c \<and> allowed_children en cs)"

text \<open>
  \<open>no_free scope n\<close> says that every identifier of \<open>n\<close> in such a position is a
  member of the scope, where the body of an arrow function is read in the scope extended
  by the names its parameters bind (an arrow function whose parameters do not scan has no
  such scope).
\<close>

fun no_free :: "string list \<Rightarrow> node \<Rightarrow> bool"
  and no_free_nodes :: "string list \<Rightarrow> node list \<Rightarrow> bool"
  and no_free_children :: "string list \<Rightarrow> node option list \<Rightarrow> bool"
where
  "no_free scope (Identifier name) = (name \<in> set scope)"
| "no_free scope (ArrowFunctionExpression params body async) =
     (case extractParams params scope of
        Inl e \<Rightarrow> False
      | Inr scope' \<Rightarrow> no_free scope' body)"
| "no_free scope (MemberExpression object property computed optional) =
     (no_free scope object \<and> (if computed then no_free scope property else True))"
| "no_free scope (Property key value computed shorthand) =
     ((if computed then no_free scope key else True) \<and> no_free scope value)"
| "no_free scope (ObjectPattern properties) = no_free_nodes scope properties"
| "no_free scope (ArrayPattern elements) = no_free_children scope elements"
| "no_free scope (RestElement argument) = no_free scope argument"
| "no_free scope (AssignmentPattern left right) = (no_free scope left \<and> no_free scope right)"
| "no_free scope (Node k opr children) = no_free_children scope children"
| "no_free_nodes scope [] = True"
| "no_free_nodes scope (n # ns) = (no_free scope n \<and> no_free_nodes scope ns)"
| "no_free_children scope [] = True"
| "no_free_children scope (None # cs) = no_free_children scope cs"
| "no_free_children scope (Some c # cs) = (no_free scope c \<and> no_free_children scope cs)"

text \<open>
  The entry check of \<open>transform\<close> on the global binding, as a property of a scope:
  a global binding is \<open>this\<close> or a member of the scope.
\<close>

definition global_in_scope :: "string option \<Rightarrow> string list \<Rightarrow> bool" where
  "global_in_scope global scope =
     (case global of None \<Rightarrow> True | Some g \<Rightarrow> g = ''this'' \<or> g \<in> set scope)"

text \<open>
  The condition under which a this-expression built for the global binding passes the
  policy check.
\<close>

definition this_admitted :: "enables \<Rightarrow> string option \<Rightarrow> bool" where
  "this_admitted en global = (if global = Some ''this'' then enableThis en else True)"

text \<open>
  The member expression that the resolver of the spec's section 4.4 builds when the
  global binding is \<open>this\<close>: not computed, not optional, a this-expression with no
  children as its object and an identifier as its property.
\<close>

definition global_this_access :: "string option \<Rightarrow> node \<Rightarrow> node \<Rightarrow> bool \<Rightarrow> bool
                                    \<Rightarrow> bool" where
  "global_this_access g object property computed optional =
     (g = Some ''this'' \<and> object = Node ThisExpression [] [] \<and>
      (case property of Identifier name \<Rightarrow> True | _ \<Rightarrow> False) \<and>
      \<not> computed \<and> \<not> optional)"

text \<open>
  \<open>admitted en g n\<close> is \<open>allowed en n\<close> with one exception: the object of such a
  member expression is not checked. A this-expression in any other position, the
  argument of a call for one, is checked like every other node.
\<close>

fun admitted :: "enables \<Rightarrow> string option \<Rightarrow> node \<Rightarrow> bool"
  and admitted_nodes :: "enables \<Rightarrow> string option \<Rightarrow> node list \<Rightarrow> bool"
  and admitted_children :: "enables \<Rightarrow> string option \<Rightarrow> node option list \<Rightarrow> bool"
where
  "admitted en g (Identifier name) = (ENTER en (Identifier name) = Inr ())"
| "admitted en g (ArrowFunctionExpression params body async) =
     (ENTER en (ArrowFunctionExpression params body async) = Inr () \<and> admitted en g body)"
| "admitted en g (MemberExpression object property computed optional) =
     (ENTER en (MemberExpression object property computed optional) = Inr () \<and>
      (if global_this_access g object property computed optional then True
       else admitted en g object) \<and>
      (if computed then admitted en g property else True))"
| "admitted en g (Property key value computed shorthand) =
     (ENTER en (Property key value computed shorthand) = Inr () \<and>
      (if computed then admitted en g key else True) \<and> admitted en g value)"
| "admitted en g (ObjectPattern properties) =
     (ENTER en (ObjectPattern properties) = Inr () \<and> admitted_nodes en g properties)"
| "admitted en g (ArrayPattern elements) =
     (ENTER en (ArrayPattern elements) = Inr () \<and> admitted_children en g elements)"
| "admitted en g (RestElement argument) =
     (ENTER en (RestElement argument) = Inr () \<and> admitted en g argument)"
| "admitted en g (AssignmentPattern left right) =
     (ENTER en (AssignmentPattern left right) = Inr () \<and>
      admitted en g left \<and> admitted en g right)"
| "admitted en g (Node k opr children) =
     (ENTER en (Node k opr children) = Inr () \<and> admitted_children en g children)"
| "admitted_nodes en g [] = True"
| "admitted_nodes en g (n # ns) = (admitted en g n \<and> admitted_nodes en g ns)"
| "admitted_children en g [] = True"
| "admitted_children en g (None # cs) = admitted_children en g cs"
| "admitted_children en g (Some c # cs) = (admitted en g c \<and> admitted_children en g cs)"

section \<open>The result in the spec's words\<close>

text \<open>
  Sections 4.3 and 4.4 of the spec, as a function from the input tree to the output
  tree, with no policy check and no error: an identifier in a position the walker
  reaches that is not in the scope becomes a non-computed member expression on the
  global binding with the identifier as its property; the body of an arrow function is
  read in the scope extended by the names its parameters bind; the parameters of an
  arrow function and the non-computed property names and keys are left as they are;
  everything else is copied. Without a global binding a free identifier is left as it
  is (the walker fails there).
\<close>

fun spec_rewrite :: "string option \<Rightarrow> string list \<Rightarrow> node \<Rightarrow> node"
  and spec_rewrite_nodes :: "string option \<Rightarrow> string list \<Rightarrow> node list \<Rightarrow> node list"
  and spec_rewrite_children :: "string option \<Rightarrow> string list \<Rightarrow> node option list
                                 \<Rightarrow> node option list"
where
  "spec_rewrite g scope (Identifier name) =
     (if name \<in> set scope then Identifier name
      else case g of
        None \<Rightarrow> Identifier name
      | Some x \<Rightarrow> MemberExpression (global_object x) (Identifier name) False False)"
| "spec_rewrite g scope (ArrowFunctionExpression params body async) =
     ArrowFunctionExpression params
       (case extractParams params scope of
          Inl e \<Rightarrow> body
        | Inr scope' \<Rightarrow> spec_rewrite g scope' body)
       async"
| "spec_rewrite g scope (MemberExpression object property computed optional) =
     MemberExpression (spec_rewrite g scope object)
       (if computed then spec_rewrite g scope property else property) computed optional"
| "spec_rewrite g scope (Property key value computed shorthand) =
     Property (if computed then spec_rewrite g scope key else key) (spec_rewrite g scope value)
       computed shorthand"
| "spec_rewrite g scope (ObjectPattern properties) =
     ObjectPattern (spec_rewrite_nodes g scope properties)"
| "spec_rewrite g scope (ArrayPattern elements) =
     ArrayPattern (spec_rewrite_children g scope elements)"
| "spec_rewrite g scope (RestElement argument) = RestElement (spec_rewrite g scope argument)"
| "spec_rewrite g scope (AssignmentPattern left right) =
     AssignmentPattern (spec_rewrite g scope left) (spec_rewrite g scope right)"
| "spec_rewrite g scope (Node k opr children) =
     Node k opr (spec_rewrite_children g scope children)"
| "spec_rewrite_nodes g scope [] = []"
| "spec_rewrite_nodes g scope (n # ns) = spec_rewrite g scope n # spec_rewrite_nodes g scope ns"
| "spec_rewrite_children g scope [] = []"
| "spec_rewrite_children g scope (None # cs) = None # spec_rewrite_children g scope cs"
| "spec_rewrite_children g scope (Some c # cs) =
     Some (spec_rewrite g scope c) # spec_rewrite_children g scope cs"

section \<open>Positions\<close>





section \<open>Inputs for the examples\<close>

text \<open>
  A host whose identifier classes are the ASCII letters, digits and underscore, and whose
  reserved set is ECMAScript's reserved words.
\<close>

definition ascii_host :: host where
  "ascii_host =
     \<lparr>ID_Start = (\<lambda>c. c \<in> set ''abcdefghijklmnopqrstuvwxyzABCDEFGHIJKLMNOPQRSTUVWXYZ''),
      ID_Continue =
        (\<lambda>c. c \<in> set ''abcdefghijklmnopqrstuvwxyzABCDEFGHIJKLMNOPQRSTUVWXYZ0123456789_''),
      reservedIdentifiers =
        [''break'', ''case'', ''catch'', ''class'', ''const'', ''continue'', ''debugger'',
         ''default'', ''delete'', ''do'', ''else'', ''enum'', ''export'', ''extends'', ''false'',
         ''finally'', ''for'', ''function'', ''if'', ''import'', ''in'', ''instanceof'', ''new'',
         ''null'', ''return'', ''super'', ''switch'', ''this'', ''throw'', ''true'', ''try'',
         ''typeof'', ''var'', ''void'', ''while'', ''with'', ''await'', ''yield'', ''let'',
         ''static'', ''implements'', ''interface'', ''package'', ''private'', ''protected'',
         ''public'']\<rparr>"

text \<open>The parameter pattern \<open>({a: {a: [, a], ...c}, c: b = 2})\<close> of test/test.js.\<close>

definition complex_pattern :: node where
  "complex_pattern =
     ObjectPattern
       [Property (Identifier ''a'')
          (ObjectPattern
             [Property (Identifier ''a'')
                (ArrayPattern [None, Some (Identifier ''a'')]) False False,
              RestElement (Identifier ''c'')])
          False False,
        Property (Identifier ''c'')
          (AssignmentPattern (Identifier ''b'') (Node Literal ''2'' [])) False False]"

text \<open>The expression \<open>a => b => a + d\<close>.\<close>

definition nested_arrows :: node where
  "nested_arrows =
     ArrowFunctionExpression [Identifier ''a'']
       (ArrowFunctionExpression [Identifier ''b'']
          (Node BinaryExpression ''+'' [Some (Identifier ''a''), Some (Identifier ''d'')])
          False)
       False"

text \<open>The expression \<open>this.a\<close>.\<close>

definition this_a :: node where
  "this_a = MemberExpression (Node ThisExpression [] []) (Identifier ''a'') False False"

text \<open>The expression \<open>(a = b++) => a\<close>.\<close>

definition arrow_with_default :: node where
  "arrow_with_default =
     ArrowFunctionExpression
       [AssignmentPattern (Identifier ''a'')
          (Node UpdateExpression ''++'' [Some (Identifier ''b'')])]
       (Identifier ''a'') False"

text \<open>The expression \<open>[a = b++] = c\<close>.\<close>

definition assignment_with_default :: node where
  "assignment_with_default =
     Node AssignmentExpression ''=''
       [Some (ArrayPattern
                [Some (AssignmentPattern (Identifier ''a'')
                         (Node UpdateExpression ''++'' [Some (Identifier ''b'')]))]),
        Some (Identifier ''c'')]"



text \<open>The expression \<open>f(this)\<close>.\<close>

definition call_with_this :: node where
  "call_with_this =
     Node CallExpression [] [Some (Identifier ''f''), Some (Node ThisExpression [] [])]"

section \<open>The walker on a store of objects\<close>

text \<open>
  Whether the input tree is mutated cannot be read off a model whose trees are values.
  Here the nodes are objects in a store and a child is the address of an object: an
  address is an index into the list of objects, and a fresh object is appended. The scope
  array is part of the same state, so that its pushes and its truncation are updates in
  place, as in the source. A computation takes the state and returns the new state with
  an error or a value; an error leaves the state as it was when the exception was thrown.
\<close>

type_synonym addr = nat

datatype obj =
    OIdentifier string
  | OObjectPattern "addr list"
  | OArrayPattern "addr option list"
  | ORestElement addr
  | OAssignmentPattern addr addr
  | OProperty addr addr bool bool
  | OMemberExpression addr addr bool bool
  | OArrowFunctionExpression "addr list" addr bool
  | ONode kind string "addr option list"

record heap =
  objects :: "obj list"
  scope_array :: "string list"

type_synonym 'a run = "heap \<Rightarrow> heap \<times> (error + 'a)"

definition ret :: "'a \<Rightarrow> 'a run" where
  "ret x = (\<lambda>h. (h, Inr x))"

definition throw :: "error \<Rightarrow> 'a run" where
  "throw e = (\<lambda>h. (h, Inl e))"

definition lift :: "error + 'a \<Rightarrow> 'a run" where
  "lift r = (\<lambda>h. (h, r))"

definition seq :: "'a run \<Rightarrow> ('a \<Rightarrow> 'b run) \<Rightarrow> 'b run" where
  "seq m f = (\<lambda>h. case m h of (h', r) \<Rightarrow> (case r of Inl e \<Rightarrow> (h', Inl e) | Inr x \<Rightarrow> f x h'))"

text \<open>Reading the object at an address; an address past the store holds no object.\<close>

definition fetch :: "addr \<Rightarrow> obj run" where
  "fetch a = (\<lambda>h. (h, if a < length (objects h) then Inr (objects h ! a) else Inl TypeError))"

text \<open>An object literal: a new object at the next address.\<close>

definition alloc :: "obj \<Rightarrow> addr run" where
  "alloc ob = (\<lambda>h. (h\<lparr>objects := objects h @ [ob]\<rparr>, Inr (length (objects h))))"

definition current_scope :: "string list run" where
  "current_scope = (\<lambda>h. (h, Inr (scope_array h)))"

text \<open>\<open>state.push(name)\<close> and \<open>state.splice(length)\<close>.\<close>

definition push :: "string \<Rightarrow> unit run" where
  "push name = (\<lambda>h. (h\<lparr>scope_array := scope_array h @ [name]\<rparr>, Inr ()))"

definition splice :: "nat \<Rightarrow> unit run" where
  "splice n = (\<lambda>h. (h\<lparr>scope_array := take n (scope_array h)\<rparr>, Inr ()))"

definition okind :: "kind \<Rightarrow> obj \<Rightarrow> bool" where
  "okind k ob = (case ob of ONode k' opr cs \<Rightarrow> k' = k | _ \<Rightarrow> False)"

text \<open>
  The policy check reads the \<open>type\<close> and the \<open>operator\<close> of a node only, so on
  an object it is the check of the tree model at a node with the same two fields.
\<close>

fun oENTER :: "enables \<Rightarrow> obj \<Rightarrow> error + unit" where
  "oENTER en (OArrowFunctionExpression ps b a) =
     test (enableArrow en) (''expression ArrowFunctionExpression is disabled'')"
| "oENTER en (ONode k opr cs) = ENTER en (Node k opr [])"
| "oENTER en ob = Inr ()"

text \<open>
  The first argument of the recursive functions is the depth of call stack that is left:
  a tree deeper than that, or a store in which an object is its own descendant, ends in
  the \<open>RangeError\<close> of the runtime.
\<close>

function (sequential) oextractDeclaration :: "nat \<Rightarrow> addr \<Rightarrow> unit run"
  and oextractProperties :: "nat \<Rightarrow> addr list \<Rightarrow> unit run"
  and oextractElements :: "nat \<Rightarrow> addr option list \<Rightarrow> unit run"
where
  "oextractDeclaration 0 a = throw RangeError"
| "oextractDeclaration (Suc d) a =
     seq (fetch a) (\<lambda>pattern.
       case pattern of
         OIdentifier name \<Rightarrow> push name
       | OObjectPattern properties \<Rightarrow> oextractProperties d properties
       | OArrayPattern elements \<Rightarrow> oextractElements d elements
       | ORestElement argument \<Rightarrow> oextractDeclaration d argument
       | OAssignmentPattern left right \<Rightarrow> oextractDeclaration d left
       | _ \<Rightarrow> throw (Error ''unknown Pattern syntax''))"
| "oextractProperties d [] = ret ()"
| "oextractProperties d (p # ps) =
     seq (fetch p) (\<lambda>entry.
     seq (case entry of
            ORestElement argument \<Rightarrow> oextractDeclaration d argument
          | OProperty k v c s \<Rightarrow> oextractDeclaration d v
          | _ \<Rightarrow> throw (SyntaxError ''unknown ObjectPattern syntax''))
         (\<lambda>u. oextractProperties d ps))"
| "oextractElements d [] = ret ()"
| "oextractElements d (None # es) = oextractElements d es"
| "oextractElements d (Some e # es) =
     seq (oextractDeclaration d e) (\<lambda>u. oextractElements d es)"
  by pat_completeness auto

termination
  by (relation "inv_image (less_than <*lex*> less_than) (\<lambda>x. case x of
         Inl (d, a) \<Rightarrow> (2 * d, 0)
       | Inr (Inl (d, ps)) \<Rightarrow> (2 * d + 1, length ps)
       | Inr (Inr (d, es)) \<Rightarrow> (2 * d + 1, length es))") auto

fun oextractParams :: "nat \<Rightarrow> addr list \<Rightarrow> unit run" where
  "oextractParams d [] = ret ()"
| "oextractParams d (p # ps) = seq (oextractDeclaration d p) (\<lambda>u. oextractParams d ps)"

text \<open>
  Modelled from the spec, like \<open>walk\<close>: the dispatch and the generic traversal of the
  package immer-walker. The handlers are those of \<open>transform\<close>; \<open>a\<close> is the
  address of \<open>node\<close>, returning it is \<open>return node\<close>, and the comparisons of
  addresses are the source's \<open>===\<close>.
\<close>

function (sequential) owalk :: "nat \<Rightarrow> enables \<Rightarrow> string option \<Rightarrow> addr \<Rightarrow> addr run"
  and ovisit :: "nat \<Rightarrow> enables \<Rightarrow> string option \<Rightarrow> addr \<Rightarrow> obj \<Rightarrow> addr run"
  and owalk_nodes :: "nat \<Rightarrow> enables \<Rightarrow> string option \<Rightarrow> addr list \<Rightarrow> addr list run"
  and owalk_children :: "nat \<Rightarrow> enables \<Rightarrow> string option \<Rightarrow> addr option list
                           \<Rightarrow> addr option list run"
where
  "owalk 0 en global a = throw RangeError"
| "owalk (Suc d) en global a =
     seq (fetch a) (\<lambda>node.
     seq (lift (oENTER en node)) (\<lambda>u.
     ovisit d en global a node))"
| "ovisit d en global a (OIdentifier name) =
     seq current_scope (\<lambda>state.
       if name \<in> set state then ret a
       else case global of
         None \<Rightarrow>
           throw (ReferenceError
                    (''variable '' @ [CHR 0x27] @ name @ [CHR 0x27] @ '' is not defined''))
       | Some g \<Rightarrow>
           seq (alloc (if g = ''this'' then ONode ThisExpression [] [] else OIdentifier g))
             (\<lambda>object.
           seq (alloc (OIdentifier name)) (\<lambda>property.
           alloc (OMemberExpression object property False False))))"
| "ovisit d en global a (OArrowFunctionExpression params body async) =
     seq (fetch body) (\<lambda>b.
       if okind BlockStatement b
       then throw (SyntaxError ''arrow function with block statement is not allowed'')
       else
         seq current_scope (\<lambda>state.
         seq (oextractParams d params) (\<lambda>u.
         seq (owalk d en global body) (\<lambda>body'.
         seq (splice (length state)) (\<lambda>u.
         if body' = body then ret a
         else alloc (OArrowFunctionExpression params body' async))))))"
| "ovisit d en global a (OMemberExpression object property computed optional) =
     seq (fetch object) (\<lambda>ob.
     seq (lift (ok (\<not> okind Super ob))) (\<lambda>u.
     seq (fetch property) (\<lambda>p.
     seq (lift (ok (\<not> okind PrivateIdentifier p))) (\<lambda>u.
     seq (owalk d en global object) (\<lambda>object'.
     seq (if computed then owalk d en global property else ret property) (\<lambda>property'.
     if object' = object \<and> property' = property then ret a
     else alloc (OMemberExpression object' property' computed optional)))))))"
| "ovisit d en global a (OProperty key value computed shorthand) =
     seq (fetch key) (\<lambda>k.
     seq (lift (ok (\<not> okind PrivateIdentifier k))) (\<lambda>u.
     seq (if computed then owalk d en global key else ret key) (\<lambda>key'.
     seq (owalk d en global value) (\<lambda>value'.
     if key' = key \<and> value' = value then ret a
     else alloc (OProperty key' value' computed shorthand)))))"
| "ovisit d en global a (OObjectPattern properties) =
     seq (owalk_nodes d en global properties) (\<lambda>properties'.
     if properties' = properties then ret a else alloc (OObjectPattern properties'))"
| "ovisit d en global a (OArrayPattern elements) =
     seq (owalk_children d en global elements) (\<lambda>elements'.
     if elements' = elements then ret a else alloc (OArrayPattern elements'))"
| "ovisit d en global a (ORestElement argument) =
     seq (owalk d en global argument) (\<lambda>argument'.
     if argument' = argument then ret a else alloc (ORestElement argument'))"
| "ovisit d en global a (OAssignmentPattern left right) =
     seq (owalk d en global left) (\<lambda>left'.
     seq (owalk d en global right) (\<lambda>right'.
     if left' = left \<and> right' = right then ret a
     else alloc (OAssignmentPattern left' right')))"
| "ovisit d en global a (ONode k opr children) =
     seq (owalk_children d en global children) (\<lambda>children'.
     if children' = children then ret a else alloc (ONode k opr children'))"
| "owalk_nodes d en global [] = ret []"
| "owalk_nodes d en global (n # ns) =
     seq (owalk d en global n) (\<lambda>n'.
     seq (owalk_nodes d en global ns) (\<lambda>ns'.
     ret (n' # ns')))"
| "owalk_children d en global [] = ret []"
| "owalk_children d en global (None # cs) =
     seq (owalk_children d en global cs) (\<lambda>cs'. ret (None # cs'))"
| "owalk_children d en global (Some c # cs) =
     seq (owalk d en global c) (\<lambda>c'.
     seq (owalk_children d en global cs) (\<lambda>cs'.
     ret (Some c' # cs')))"
  by pat_completeness auto

termination
  by (relation "inv_image (less_than <*lex*> less_than) (\<lambda>x. case x of
         Inl (Inl (d, en, g, a)) \<Rightarrow> (3 * d, 0)
       | Inl (Inr (d, en, g, a, ob)) \<Rightarrow> (3 * d + 2, 0)
       | Inr (Inl (d, en, g, ns)) \<Rightarrow> (3 * d + 1, length ns)
       | Inr (Inr (d, en, g, cs)) \<Rightarrow> (3 * d + 1, length cs))") auto

text \<open>
  \<open>transform\<close> on the store \<open>objs\<close>, with the root at the address \<open>ast\<close>. The
  scope array of the walker starts as the parameter list.
\<close>

definition otransform :: "nat \<Rightarrow> host \<Rightarrow> addr \<Rightarrow> string list \<Rightarrow> string option \<Rightarrow> enables
                            \<Rightarrow> obj list \<Rightarrow> heap \<times> (error + addr)" where
  "otransform d h ast params global en objs =
     seq (lift (check_params h params)) (\<lambda>u.
     seq (lift (check_global params global)) (\<lambda>u.
     owalk d en global ast))
       \<lparr>objects = objs, scope_array = params\<rparr>"

text \<open>A computation that leaves every object of the store as it is and only adds objects.\<close>

definition extends :: "'a run \<Rightarrow> bool" where
  "extends m = (\<forall>h. \<exists>new. objects (fst (m h)) = objects h @ new)"

text \<open>
  A successful computation whose value is the address \<open>a\<close> or the address of an
  object that was not in the store before.
\<close>

definition returns_same_or_new :: "addr \<Rightarrow> addr run \<Rightarrow> bool" where
  "returns_same_or_new a m =
     (\<forall>h. case snd (m h) of Inl e \<Rightarrow> True | Inr r \<Rightarrow> r = a \<or> length (objects h) \<le> r)"

text \<open>The store of \<open>b => d\<close>: the parameter, the body and the arrow function.\<close>

definition arrow_store :: "obj list" where
  "arrow_store =
     [OIdentifier ''b'', OIdentifier ''d'', OArrowFunctionExpression [0] 1 False]"

text \<open>
  The tree that the objects below an address stand for, read to a given depth; \<open>None\<close>
  when an address holds no object or the depth does not suffice.
\<close>

function (sequential) tree_of :: "nat \<Rightarrow> obj list \<Rightarrow> addr \<Rightarrow> node option"
  and trees_of :: "nat \<Rightarrow> obj list \<Rightarrow> addr list \<Rightarrow> node list option"
  and children_of :: "nat \<Rightarrow> obj list \<Rightarrow> addr option list \<Rightarrow> node option list option"
where
  "tree_of 0 s a = None"
| "tree_of (Suc d) s a =
     (if a < length s then
        (case s ! a of
           OIdentifier name \<Rightarrow> Some (Identifier name)
         | OObjectPattern ps \<Rightarrow> map_option ObjectPattern (trees_of d s ps)
         | OArrayPattern es \<Rightarrow> map_option ArrayPattern (children_of d s es)
         | ORestElement arg \<Rightarrow> map_option RestElement (tree_of d s arg)
         | OAssignmentPattern l r \<Rightarrow>
             (case (tree_of d s l, tree_of d s r) of
                (Some l', Some r') \<Rightarrow> Some (AssignmentPattern l' r')
              | _ \<Rightarrow> None)
         | OProperty k v c sh \<Rightarrow>
             (case (tree_of d s k, tree_of d s v) of
                (Some k', Some v') \<Rightarrow> Some (Property k' v' c sh)
              | _ \<Rightarrow> None)
         | OMemberExpression ob p c opt \<Rightarrow>
             (case (tree_of d s ob, tree_of d s p) of
                (Some ob', Some p') \<Rightarrow> Some (MemberExpression ob' p' c opt)
              | _ \<Rightarrow> None)
         | OArrowFunctionExpression ps b async \<Rightarrow>
             (case (trees_of d s ps, tree_of d s b) of
                (Some ps', Some b') \<Rightarrow> Some (ArrowFunctionExpression ps' b' async)
              | _ \<Rightarrow> None)
         | ONode k opr cs \<Rightarrow> map_option (Node k opr) (children_of d s cs))
      else None)"
| "trees_of d s [] = Some []"
| "trees_of d s (a # as) =
     (case (tree_of d s a, trees_of d s as) of
        (Some n, Some ns) \<Rightarrow> Some (n # ns)
      | _ \<Rightarrow> None)"
| "children_of d s [] = Some []"
| "children_of d s (None # cs) = map_option ((#) None) (children_of d s cs)"
| "children_of d s (Some a # cs) =
     (case (tree_of d s a, children_of d s cs) of
        (Some n, Some ns) \<Rightarrow> Some (Some n # ns)
      | _ \<Rightarrow> None)"
  by pat_completeness auto

termination
  by (relation "inv_image (less_than <*lex*> less_than) (\<lambda>x. case x of
         Inl (d, s, a) \<Rightarrow> (2 * d, 0)
       | Inr (Inl (d, s, as)) \<Rightarrow> (2 * d + 1, length as)
       | Inr (Inr (d, s, cs)) \<Rightarrow> (2 * d + 1, length cs))") auto





section \<open>The binding scanner appends the bound names\<close>

lemma extract_Some:
  "\<forall>ns. bound_names p = Some ns \<longrightarrow> extractDeclaration p scope = Inr (scope @ ns)"
  "\<forall>ns. entries_names ps = Some ns \<longrightarrow> extractProperties ps scope = Inr (scope @ ns)"
  "\<forall>ns. elements_names es = Some ns \<longrightarrow> extractElements es scope = Inr (scope @ ns)"
  by (induction p scope and ps scope and es scope
      rule: extractDeclaration_extractProperties_extractElements.induct)
     (auto split: option.splits)

lemma extract_None:
  "bound_names p = None \<longrightarrow> pattern_error (extractDeclaration p scope)"
  "entries_names ps = None \<longrightarrow> pattern_error (extractProperties ps scope)"
  "elements_names es = None \<longrightarrow> pattern_error (extractElements es scope)"
  by (induction p scope and ps scope and es scope
      rule: extractDeclaration_extractProperties_extractElements.induct)
     (auto simp: extract_Some pattern_error_def split: option.splits sum.splits)

section \<open>Successful walks\<close>

lemma extract_extends:
  "\<forall>sc'. extractDeclaration p sc = Inr sc' \<longrightarrow> (\<exists>ns. sc' = sc @ ns)"
  "\<forall>sc'. extractProperties ps sc = Inr sc' \<longrightarrow> (\<exists>ns. sc' = sc @ ns)"
  "\<forall>sc'. extractElements es sc = Inr sc' \<longrightarrow> (\<exists>ns. sc' = sc @ ns)"
  by (induction p sc and ps sc and es sc
      rule: extractDeclaration_extractProperties_extractElements.induct)
     (auto split: sum.splits)

lemma extractParams_extends:
  "extractParams ps sc = Inr sc' \<Longrightarrow> \<exists>ns. sc' = sc @ ns"
proof (induction ps arbitrary: sc)
  case Nil
  then show ?case by simp
next
  case (Cons p ps)
  then show ?case
    using extract_extends(1) [of p sc] by (fastforce split: sum.splits)
qed

lemma extractParams_take:
  "extractParams ps sc = Inr sc' \<Longrightarrow> take (length sc) sc' = sc"
  using extractParams_extends [of ps sc sc'] by auto

lemma bind_Inr:
  "((case x of Inl e \<Rightarrow> Inl e | Inr v \<Rightarrow> f v) = Inr r) = (\<exists>v. x = Inr v \<and> f v = Inr r)"
  by (cases x) auto

lemma ok_Inr: "(ok v = Inr u) = v"
  by (simp add: ok_def)

lemma test_Inr: "(test c e = Inr u) = c"
  by (simp add: test_def)


declare walk.simps [simp del]

lemma walk_Inr:
  "walk en g n st = Inr r \<Longrightarrow> ENTER en n = Inr () \<and> visit en g n st = Inr r"
  by (simp add: walk.simps bind_Inr)

lemma visit_Arrow_Inr:
  "visit en g (ArrowFunctionExpression ps body a) st = Inr (n', b, st') \<Longrightarrow>
   \<exists>st1 body' st2.
     \<not> is_kind BlockStatement body \<and> extractParams ps st = Inr st1 \<and>
     walk en g body st1 = Inr (body', b, st2) \<and> st' = take (length st) st2 \<and>
     n' = (if b then ArrowFunctionExpression ps body a else ArrowFunctionExpression ps body' a)"
  by (fastforce simp: bind_Inr split: if_splits)

lemma visit_Member_Inr:
  "visit en g (MemberExpression ob p c opt) st = Inr (n', b, st') \<Longrightarrow>
   \<exists>ob' s1 st1 p' s2.
     \<not> is_kind Super ob \<and> \<not> is_kind PrivateIdentifier p \<and>
     walk en g ob st = Inr (ob', s1, st1) \<and>
     (if c then walk en g p st1 else Inr (p, True, st1)) = Inr (p', s2, st') \<and>
     b = (s1 \<and> s2) \<and>
     n' = (if s1 \<and> s2 then MemberExpression ob p c opt else MemberExpression ob' p' c opt)"
  by (fastforce simp: bind_Inr ok_Inr)

lemma visit_Property_Inr:
  "visit en g (Property k v c s) st = Inr (n', b, st') \<Longrightarrow>
   \<exists>k' s1 st1 v' s2.
     \<not> is_kind PrivateIdentifier k \<and>
     (if c then walk en g k st else Inr (k, True, st)) = Inr (k', s1, st1) \<and>
     walk en g v st1 = Inr (v', s2, st') \<and>
     b = (s1 \<and> s2) \<and>
     n' = (if s1 \<and> s2 then Property k v c s else Property k' v' c s)"
  by (fastforce simp: bind_Inr ok_Inr)

lemma visit_ObjectPattern_Inr:
  "visit en g (ObjectPattern ps) st = Inr (n', b, st') \<Longrightarrow>
   \<exists>ps'. walk_nodes en g ps st = Inr (ps', b, st') \<and>
          n' = (if b then ObjectPattern ps else ObjectPattern ps')"
  by (fastforce simp: bind_Inr)

lemma visit_ArrayPattern_Inr:
  "visit en g (ArrayPattern es) st = Inr (n', b, st') \<Longrightarrow>
   \<exists>es'. walk_children en g es st = Inr (es', b, st') \<and>
          n' = (if b then ArrayPattern es else ArrayPattern es')"
  by (fastforce simp: bind_Inr)

lemma visit_RestElement_Inr:
  "visit en g (RestElement a) st = Inr (n', b, st') \<Longrightarrow>
   \<exists>a'. walk en g a st = Inr (a', b, st') \<and>
         n' = (if b then RestElement a else RestElement a')"
  by (fastforce simp: bind_Inr)

lemma visit_AssignmentPattern_Inr:
  "visit en g (AssignmentPattern l r) st = Inr (n', b, st') \<Longrightarrow>
   \<exists>l' s1 st1 r' s2.
     walk en g l st = Inr (l', s1, st1) \<and> walk en g r st1 = Inr (r', s2, st') \<and>
     b = (s1 \<and> s2) \<and>
     n' = (if s1 \<and> s2 then AssignmentPattern l r else AssignmentPattern l' r')"
  by (fastforce simp: bind_Inr)

lemma visit_Node_Inr:
  "visit en g (Node k opr cs) st = Inr (n', b, st') \<Longrightarrow>
   \<exists>cs'. walk_children en g cs st = Inr (cs', b, st') \<and>
          n' = (if b then Node k opr cs else Node k opr cs')"
  by (fastforce simp: bind_Inr)

lemma walk_nodes_Cons_Inr:
  "walk_nodes en g (n # ns) st = Inr (r, b, st') \<Longrightarrow>
   \<exists>n' s1 st1 ns' s2.
     walk en g n st = Inr (n', s1, st1) \<and> walk_nodes en g ns st1 = Inr (ns', s2, st') \<and>
     b = (s1 \<and> s2) \<and> r = n' # ns'"
  by (fastforce simp: bind_Inr)

lemma walk_children_None_Inr:
  "walk_children en g (None # cs) st = Inr (r, b, st') \<Longrightarrow>
   \<exists>cs'. walk_children en g cs st = Inr (cs', b, st') \<and> r = None # cs'"
  by (fastforce simp: bind_Inr)

lemma walk_children_Some_Inr:
  "walk_children en g (Some c # cs) st = Inr (r, b, st') \<Longrightarrow>
   \<exists>c' s1 st1 cs' s2.
     walk en g c st = Inr (c', s1, st1) \<and> walk_children en g cs st1 = Inr (cs', s2, st') \<and>
     b = (s1 \<and> s2) \<and> r = Some c' # cs'"
  by (fastforce simp: bind_Inr)


lemma walk_state_all:
  "\<forall>n' b st'. walk en g n st = Inr (n', b, st') \<longrightarrow> st' = st"
  "\<forall>n' b st'. visit en g n st = Inr (n', b, st') \<longrightarrow> st' = st"
  "\<forall>ns' b st'. walk_nodes en g ns st = Inr (ns', b, st') \<longrightarrow> st' = st"
  "\<forall>cs' b st'. walk_children en g cs st = Inr (cs', b, st') \<longrightarrow> st' = st"
proof (induction en g n st and en g n st and en g ns st and en g cs st
       rule: walk_visit_walk_nodes_walk_children.induct)
  case (1 en g n st)
  then show ?case by (auto dest!: walk_Inr)
next
  case (2 en g name st)
  show ?case by (simp split: option.splits)
next
  case (3 en g ps body a st)
  show ?case
  proof (intro allI impI)
    fix n' b st'
    assume "visit en g (ArrowFunctionExpression ps body a) st = Inr (n', b, st')"
    from visit_Arrow_Inr [OF this] obtain st1 body' st2 where
      nb: "\<not> is_kind BlockStatement body" and ex: "extractParams ps st = Inr st1" and
      wb: "walk en g body st1 = Inr (body', b, st2)" and st': "st' = take (length st) st2"
      by blast
    have "st2 = st1" using "3.IH" [OF nb ex] wb by simp
    then show "st' = st" using st' extractParams_take [OF ex] by simp
  qed
next
  case (4 en g ob p c opt st)
  show ?case
  proof (intro allI impI)
    fix n' b st'
    assume "visit en g (MemberExpression ob p c opt) st = Inr (n', b, st')"
    from visit_Member_Inr [OF this] obtain ob' s1 st1 p' s2 where
      ns: "\<not> is_kind Super ob" and np: "\<not> is_kind PrivateIdentifier p" and
      wo: "walk en g ob st = Inr (ob', s1, st1)" and
      wp: "(if c then walk en g p st1 else Inr (p, True, st1)) = Inr (p', s2, st')"
      by blast
    have "st1 = st"
      using "4.IH"(1) [of "()" "()"] ns np wo by (simp add: ok_Inr)
    moreover have "st' = st1"
    proof (cases c)
      case True
      then show ?thesis
        using "4.IH"(2) [of "()" "()" "(ob', s1, st1)" ob' "(s1, st1)" s1 st1] ns np wo wp
        by (simp add: ok_Inr)
    next
      case False
      then show ?thesis using wp by simp
    qed
    ultimately show "st' = st" by simp
  qed
next
  case (5 en g k v c s st)
  show ?case
  proof (intro allI impI)
    fix n' b st'
    assume "visit en g (Property k v c s) st = Inr (n', b, st')"
    from visit_Property_Inr [OF this] obtain k' s1 st1 v' s2 where
      nk: "\<not> is_kind PrivateIdentifier k" and
      wk: "(if c then walk en g k st else Inr (k, True, st)) = Inr (k', s1, st1)" and
      wv: "walk en g v st1 = Inr (v', s2, st')"
      by blast
    have "st1 = st"
    proof (cases c)
      case True
      then show ?thesis
        using "5.IH"(1) [of "()"] nk wk by (simp add: ok_Inr)
    next
      case False
      then show ?thesis using wk by simp
    qed
    moreover have "st' = st1"
      using "5.IH"(2) [of "()" "(k', s1, st1)" k' "(s1, st1)" s1 st1] nk wk wv
      by (simp add: ok_Inr)
    ultimately show "st' = st" by simp
  qed
next
  case (6 en g ps st)
  then show ?case by (auto simp: bind_Inr)
next
  case (7 en g es st)
  then show ?case by (auto simp: bind_Inr)
next
  case (8 en g a st)
  then show ?case by (auto simp: bind_Inr)
next
  case (9 en g l r st)
  show ?case
  proof (intro allI impI)
    fix n' b st'
    assume "visit en g (AssignmentPattern l r) st = Inr (n', b, st')"
    from visit_AssignmentPattern_Inr [OF this] obtain l' s1 st1 r' s2 where
      wl: "walk en g l st = Inr (l', s1, st1)" and
      wr: "walk en g r st1 = Inr (r', s2, st')"
      by blast
    have "st1 = st" using "9.IH"(1) wl by simp
    moreover have "st' = st1"
      using "9.IH"(2) [of "(l', s1, st1)" l' "(s1, st1)" s1 st1] wl wr by simp
    ultimately show "st' = st" by simp
  qed
next
  case (10 en g k opr cs st)
  then show ?case by (auto simp: bind_Inr)
next
  case (11 en g st)
  show ?case by simp
next
  case (12 en g n ns st)
  show ?case
  proof (intro allI impI)
    fix ns' b st'
    assume "walk_nodes en g (n # ns) st = Inr (ns', b, st')"
    from walk_nodes_Cons_Inr [OF this] obtain n' s1 st1 ns'' s2 where
      wn: "walk en g n st = Inr (n', s1, st1)" and
      wns: "walk_nodes en g ns st1 = Inr (ns'', s2, st')"
      by blast
    have "st1 = st" using "12.IH"(1) wn by simp
    moreover have "st' = st1"
      using "12.IH"(2) [of "(n', s1, st1)" n' "(s1, st1)" s1 st1] wn wns by simp
    ultimately show "st' = st" by simp
  qed
next
  case (13 en g st)
  show ?case by simp
next
  case (14 en g cs st)
  then show ?case by (auto simp: bind_Inr)
next
  case (15 en g c cs st)
  show ?case
  proof (intro allI impI)
    fix cs' b st'
    assume "walk_children en g (Some c # cs) st = Inr (cs', b, st')"
    from walk_children_Some_Inr [OF this] obtain c' s1 st1 cs'' s2 where
      wc: "walk en g c st = Inr (c', s1, st1)" and
      wcs: "walk_children en g cs st1 = Inr (cs'', s2, st')"
      by blast
    have "st1 = st" using "15.IH"(1) wc by simp
    moreover have "st' = st1"
      using "15.IH"(2) [of "(c', s1, st1)" c' "(s1, st1)" s1 st1] wc wcs by simp
    ultimately show "st' = st" by simp
  qed
qed

lemma walk_state: "walk en g n st = Inr (n', b, st') \<Longrightarrow> st' = st"
  using walk_state_all(1) by blast

lemma walk_nodes_state: "walk_nodes en g ns st = Inr (ns', b, st') \<Longrightarrow> st' = st"
  using walk_state_all(3) by blast

lemma walk_children_state: "walk_children en g cs st = Inr (cs', b, st') \<Longrightarrow> st' = st"
  using walk_state_all(4) by blast


lemma walk_induct [case_names walk Identifier Arrow Member Property ObjectPattern ArrayPattern
                    RestElement AssignmentPattern Node Nil Cons CNil CNone CSome]:
  fixes Pw Pv :: "enables \<Rightarrow> string option \<Rightarrow> node \<Rightarrow> string list \<Rightarrow> bool"
    and Pn :: "enables \<Rightarrow> string option \<Rightarrow> node list \<Rightarrow> string list \<Rightarrow> bool"
    and Pc :: "enables \<Rightarrow> string option \<Rightarrow> node option list \<Rightarrow> string list \<Rightarrow> bool"
  assumes W: "\<And>en g n st. (ENTER en n = Inr () \<Longrightarrow> Pv en g n st) \<Longrightarrow> Pw en g n st"
    and I: "\<And>en g name st. Pv en g (Identifier name) st"
    and A: "\<And>en g ps body a st.
              (\<And>st1. \<not> is_kind BlockStatement body \<Longrightarrow> extractParams ps st = Inr st1
                 \<Longrightarrow> Pw en g body st1)
              \<Longrightarrow> Pv en g (ArrowFunctionExpression ps body a) st"
    and M: "\<And>en g ob p c opt st.
              (\<not> is_kind Super ob \<Longrightarrow> \<not> is_kind PrivateIdentifier p \<Longrightarrow> Pw en g ob st) \<Longrightarrow>
              (\<And>ob' s1. \<not> is_kind Super ob \<Longrightarrow> \<not> is_kind PrivateIdentifier p \<Longrightarrow>
                 walk en g ob st = Inr (ob', s1, st) \<Longrightarrow> c \<Longrightarrow> Pw en g p st)
              \<Longrightarrow> Pv en g (MemberExpression ob p c opt) st"
    and P: "\<And>en g k v c s st.
              (\<not> is_kind PrivateIdentifier k \<Longrightarrow> c \<Longrightarrow> Pw en g k st) \<Longrightarrow>
              (\<And>k' s1. \<not> is_kind PrivateIdentifier k \<Longrightarrow>
                 (if c then walk en g k st else Inr (k, True, st)) = Inr (k', s1, st)
                 \<Longrightarrow> Pw en g v st)
              \<Longrightarrow> Pv en g (Property k v c s) st"
    and OP: "\<And>en g ps st. Pn en g ps st \<Longrightarrow> Pv en g (ObjectPattern ps) st"
    and AP: "\<And>en g es st. Pc en g es st \<Longrightarrow> Pv en g (ArrayPattern es) st"
    and R: "\<And>en g a st. Pw en g a st \<Longrightarrow> Pv en g (RestElement a) st"
    and AS: "\<And>en g l r st.
              Pw en g l st \<Longrightarrow>
              (\<And>l' s1. walk en g l st = Inr (l', s1, st) \<Longrightarrow> Pw en g r st)
              \<Longrightarrow> Pv en g (AssignmentPattern l r) st"
    and N: "\<And>en g k opr cs st. Pc en g cs st \<Longrightarrow> Pv en g (Node k opr cs) st"
    and NN: "\<And>en g st. Pn en g [] st"
    and NC: "\<And>en g n ns st.
              Pw en g n st \<Longrightarrow>
              (\<And>n' s1. walk en g n st = Inr (n', s1, st) \<Longrightarrow> Pn en g ns st)
              \<Longrightarrow> Pn en g (n # ns) st"
    and CN: "\<And>en g st. Pc en g [] st"
    and CH: "\<And>en g cs st. Pc en g cs st \<Longrightarrow> Pc en g (None # cs) st"
    and CS: "\<And>en g c cs st.
              Pw en g c st \<Longrightarrow>
              (\<And>c' s1. walk en g c st = Inr (c', s1, st) \<Longrightarrow> Pc en g cs st)
              \<Longrightarrow> Pc en g (Some c # cs) st"
  shows "Pw en g n st" and "Pv en g n st" and "Pn en g ns st" and "Pc en g cs st"
proof (induction en g n st and en g n st and en g ns st and en g cs st
       rule: walk_visit_walk_nodes_walk_children.induct)
  case (1 en g n st)
  show ?case by (rule W) (use 1 in simp)
next
  case (2 en g name st)
  show ?case by (rule I)
next
  case (3 en g ps body a st)
  show ?case by (rule A) (use 3 in blast)
next
  case (4 en g ob p c opt st)
  show ?case
  proof (rule M)
    assume "\<not> is_kind Super ob" "\<not> is_kind PrivateIdentifier p"
    then show "Pw en g ob st"
      using "4.IH"(1) [of "()" "()"] by (simp add: ok_Inr)
  next
    fix ob' s1
    assume "\<not> is_kind Super ob" "\<not> is_kind PrivateIdentifier p"
      "walk en g ob st = Inr (ob', s1, st)" "c"
    then show "Pw en g p st"
      using "4.IH"(2) [of "()" "()" "(ob', s1, st)" ob' "(s1, st)" s1 st] by (simp add: ok_Inr)
  qed
next
  case (5 en g k v c s st)
  show ?case
  proof (rule P)
    assume "\<not> is_kind PrivateIdentifier k" "c"
    then show "Pw en g k st"
      using "5.IH"(1) [of "()"] by (simp add: ok_Inr)
  next
    fix k' s1
    assume "\<not> is_kind PrivateIdentifier k"
      "(if c then walk en g k st else Inr (k, True, st)) = Inr (k', s1, st)"
    then show "Pw en g v st"
      using "5.IH"(2) [of "()" "(k', s1, st)" k' "(s1, st)" s1 st] by (simp add: ok_Inr)
  qed
next
  case (6 en g ps st)
  then show ?case by (rule OP)
next
  case (7 en g es st)
  then show ?case by (rule AP)
next
  case (8 en g a st)
  then show ?case by (rule R)
next
  case (9 en g l r st)
  show ?case
  proof (rule AS)
    show "Pw en g l st" by (rule "9.IH"(1))
  next
    fix l' s1
    assume "walk en g l st = Inr (l', s1, st)"
    then show "Pw en g r st"
      using "9.IH"(2) [of "(l', s1, st)" l' "(s1, st)" s1 st] by simp
  qed
next
  case (10 en g k opr cs st)
  then show ?case by (rule N)
next
  case (11 en g st)
  show ?case by (rule NN)
next
  case (12 en g n ns st)
  show ?case
  proof (rule NC)
    show "Pw en g n st" by (rule "12.IH"(1))
  next
    fix n' s1
    assume "walk en g n st = Inr (n', s1, st)"
    then show "Pn en g ns st"
      using "12.IH"(2) [of "(n', s1, st)" n' "(s1, st)" s1 st] by simp
  qed
next
  case (13 en g st)
  show ?case by (rule CN)
next
  case (14 en g cs st)
  then show ?case by (rule CH)
next
  case (15 en g c cs st)
  show ?case
  proof (rule CS)
    show "Pw en g c st" by (rule "15.IH"(1))
  next
    fix c' s1
    assume "walk en g c st = Inr (c', s1, st)"
    then show "Pc en g cs st"
      using "15.IH"(2) [of "(c', s1, st)" c' "(s1, st)" s1 st] by simp
  qed
qed


lemma walk_iff:
  "walk en g n st = Inr (n', b, st') \<longleftrightarrow>
     ENTER en n = Inr () \<and> visit en g n st = Inr (n', b, st) \<and> st' = st"
  using walk_state [of en g n st n' b st'] by (auto simp: walk.simps bind_Inr)

lemma visit_Arrow_iff:
  "visit en g (ArrowFunctionExpression ps body a) st = Inr (n', b, st') \<longleftrightarrow>
     (\<exists>st1 body'.
        \<not> is_kind BlockStatement body \<and> extractParams ps st = Inr st1 \<and>
        walk en g body st1 = Inr (body', b, st1) \<and> st' = st \<and>
        n' = (if b then ArrowFunctionExpression ps body a
              else ArrowFunctionExpression ps body' a))"
    (is "?L \<longleftrightarrow> ?R")
proof
  assume ?L
  from visit_Arrow_Inr [OF this] obtain st1 body' st2 where
    nb: "\<not> is_kind BlockStatement body" and ex: "extractParams ps st = Inr st1" and
    wb: "walk en g body st1 = Inr (body', b, st2)" and st': "st' = take (length st) st2" and
    n': "n' = (if b then ArrowFunctionExpression ps body a
               else ArrowFunctionExpression ps body' a)"
    by blast
  have st2: "st2 = st1" by (rule walk_state [OF wb])
  have "st' = st" using st' st2 extractParams_take [OF ex] by simp
  with nb ex wb st2 n' show ?R by blast
next
  assume ?R
  then obtain st1 body' where
    nb: "\<not> is_kind BlockStatement body" and ex: "extractParams ps st = Inr st1" and
    wb: "walk en g body st1 = Inr (body', b, st1)" and st': "st' = st" and
    n': "n' = (if b then ArrowFunctionExpression ps body a
               else ArrowFunctionExpression ps body' a)"
    by blast
  show ?L using nb ex wb st' n' extractParams_take [OF ex] by simp
qed

lemma visit_Member_iff:
  "visit en g (MemberExpression ob p c opt) st = Inr (n', b, st') \<longleftrightarrow>
     (\<exists>ob' s1 p' s2.
        \<not> is_kind Super ob \<and> \<not> is_kind PrivateIdentifier p \<and>
        walk en g ob st = Inr (ob', s1, st) \<and>
        (if c then walk en g p st = Inr (p', s2, st) else p' = p \<and> s2) \<and>
        b = (s1 \<and> s2) \<and> st' = st \<and>
        n' = (if s1 \<and> s2 then MemberExpression ob p c opt
              else MemberExpression ob' p' c opt))"
    (is "?L \<longleftrightarrow> ?R")
proof
  assume ?L
  from visit_Member_Inr [OF this] obtain ob' s1 st1 p' s2 where
    ns: "\<not> is_kind Super ob" and np: "\<not> is_kind PrivateIdentifier p" and
    wo: "walk en g ob st = Inr (ob', s1, st1)" and
    wp: "(if c then walk en g p st1 else Inr (p, True, st1)) = Inr (p', s2, st')" and
    b: "b = (s1 \<and> s2)" and
    n': "n' = (if s1 \<and> s2 then MemberExpression ob p c opt
               else MemberExpression ob' p' c opt)"
    by blast
  have st1: "st1 = st" by (rule walk_state [OF wo])
  have st': "st' = st" using wp st1 by (auto split: if_splits dest: walk_state)
  have "if c then walk en g p st = Inr (p', s2, st) else p' = p \<and> s2"
    using wp st1 st' by (auto split: if_splits)
  with ns np wo st1 st' b n' show ?R by blast
next
  assume ?R
  then obtain ob' s1 p' s2 where
    ns: "\<not> is_kind Super ob" and np: "\<not> is_kind PrivateIdentifier p" and
    wo: "walk en g ob st = Inr (ob', s1, st)" and
    wp: "if c then walk en g p st = Inr (p', s2, st) else p' = p \<and> s2" and
    b: "b = (s1 \<and> s2)" and st': "st' = st" and
    n': "n' = (if s1 \<and> s2 then MemberExpression ob p c opt
               else MemberExpression ob' p' c opt)"
    by blast
  show ?L using ns np wo wp b st' n' by (cases c) (simp_all add: ok_def)
qed

lemma visit_Property_iff:
  "visit en g (Property k v c s) st = Inr (n', b, st') \<longleftrightarrow>
     (\<exists>k' s1 v' s2.
        \<not> is_kind PrivateIdentifier k \<and>
        (if c then walk en g k st = Inr (k', s1, st) else k' = k \<and> s1) \<and>
        walk en g v st = Inr (v', s2, st) \<and>
        b = (s1 \<and> s2) \<and> st' = st \<and>
        n' = (if s1 \<and> s2 then Property k v c s else Property k' v' c s))"
    (is "?L \<longleftrightarrow> ?R")
proof
  assume ?L
  from visit_Property_Inr [OF this] obtain k' s1 st1 v' s2 where
    nk: "\<not> is_kind PrivateIdentifier k" and
    wk: "(if c then walk en g k st else Inr (k, True, st)) = Inr (k', s1, st1)" and
    wv: "walk en g v st1 = Inr (v', s2, st')" and
    b: "b = (s1 \<and> s2)" and
    n': "n' = (if s1 \<and> s2 then Property k v c s else Property k' v' c s)"
    by blast
  have st1: "st1 = st" using wk by (auto split: if_splits dest: walk_state)
  have st': "st' = st" using walk_state [OF wv] st1 by simp
  have "if c then walk en g k st = Inr (k', s1, st) else k' = k \<and> s1"
    using wk st1 by (auto split: if_splits)
  with nk wv st1 st' b n' show ?R by blast
next
  assume ?R
  then obtain k' s1 v' s2 where
    nk: "\<not> is_kind PrivateIdentifier k" and
    wk: "if c then walk en g k st = Inr (k', s1, st) else k' = k \<and> s1" and
    wv: "walk en g v st = Inr (v', s2, st)" and
    b: "b = (s1 \<and> s2)" and st': "st' = st" and
    n': "n' = (if s1 \<and> s2 then Property k v c s else Property k' v' c s)"
    by blast
  show ?L using nk wk wv b st' n' by (cases c) (simp_all add: ok_def)
qed

lemma visit_ObjectPattern_iff:
  "visit en g (ObjectPattern ps) st = Inr (n', b, st') \<longleftrightarrow>
     (\<exists>ps'. walk_nodes en g ps st = Inr (ps', b, st) \<and> st' = st \<and>
            n' = (if b then ObjectPattern ps else ObjectPattern ps'))"
    (is "?L \<longleftrightarrow> ?R")
proof
  assume ?L
  from visit_ObjectPattern_Inr [OF this] obtain ps' where
    w: "walk_nodes en g ps st = Inr (ps', b, st')" and
    n': "n' = (if b then ObjectPattern ps else ObjectPattern ps')"
    by blast
  have "st' = st" by (rule walk_nodes_state [OF w])
  with w n' show ?R by blast
next
  assume ?R
  then show ?L by auto
qed

lemma visit_ArrayPattern_iff:
  "visit en g (ArrayPattern es) st = Inr (n', b, st') \<longleftrightarrow>
     (\<exists>es'. walk_children en g es st = Inr (es', b, st) \<and> st' = st \<and>
            n' = (if b then ArrayPattern es else ArrayPattern es'))"
    (is "?L \<longleftrightarrow> ?R")
proof
  assume ?L
  from visit_ArrayPattern_Inr [OF this] obtain es' where
    w: "walk_children en g es st = Inr (es', b, st')" and
    n': "n' = (if b then ArrayPattern es else ArrayPattern es')"
    by blast
  have "st' = st" by (rule walk_children_state [OF w])
  with w n' show ?R by blast
next
  assume ?R
  then show ?L by auto
qed

lemma visit_RestElement_iff:
  "visit en g (RestElement a) st = Inr (n', b, st') \<longleftrightarrow>
     (\<exists>a'. walk en g a st = Inr (a', b, st) \<and> st' = st \<and>
           n' = (if b then RestElement a else RestElement a'))"
    (is "?L \<longleftrightarrow> ?R")
proof
  assume ?L
  from visit_RestElement_Inr [OF this] obtain a' where
    w: "walk en g a st = Inr (a', b, st')" and
    n': "n' = (if b then RestElement a else RestElement a')"
    by blast
  have "st' = st" by (rule walk_state [OF w])
  with w n' show ?R by blast
next
  assume ?R
  then show ?L by auto
qed

lemma visit_AssignmentPattern_iff:
  "visit en g (AssignmentPattern l r) st = Inr (n', b, st') \<longleftrightarrow>
     (\<exists>l' s1 r' s2.
        walk en g l st = Inr (l', s1, st) \<and> walk en g r st = Inr (r', s2, st) \<and>
        b = (s1 \<and> s2) \<and> st' = st \<and>
        n' = (if s1 \<and> s2 then AssignmentPattern l r else AssignmentPattern l' r'))"
    (is "?L \<longleftrightarrow> ?R")
proof
  assume ?L
  from visit_AssignmentPattern_Inr [OF this] obtain l' s1 st1 r' s2 where
    wl: "walk en g l st = Inr (l', s1, st1)" and wr: "walk en g r st1 = Inr (r', s2, st')" and
    b: "b = (s1 \<and> s2)" and
    n': "n' = (if s1 \<and> s2 then AssignmentPattern l r else AssignmentPattern l' r')"
    by blast
  have st1: "st1 = st" by (rule walk_state [OF wl])
  have st': "st' = st" using walk_state [OF wr] st1 by simp
  from wl wr st1 st' b n' show ?R by blast
next
  assume ?R
  then show ?L by auto
qed

lemma visit_Node_iff:
  "visit en g (Node k opr cs) st = Inr (n', b, st') \<longleftrightarrow>
     (\<exists>cs'. walk_children en g cs st = Inr (cs', b, st) \<and> st' = st \<and>
            n' = (if b then Node k opr cs else Node k opr cs'))"
    (is "?L \<longleftrightarrow> ?R")
proof
  assume ?L
  from visit_Node_Inr [OF this] obtain cs' where
    w: "walk_children en g cs st = Inr (cs', b, st')" and
    n': "n' = (if b then Node k opr cs else Node k opr cs')"
    by blast
  have "st' = st" by (rule walk_children_state [OF w])
  with w n' show ?R by blast
next
  assume ?R
  then show ?L by auto
qed

lemma walk_nodes_Cons_iff:
  "walk_nodes en g (n # ns) st = Inr (r, b, st') \<longleftrightarrow>
     (\<exists>n' s1 ns' s2.
        walk en g n st = Inr (n', s1, st) \<and> walk_nodes en g ns st = Inr (ns', s2, st) \<and>
        b = (s1 \<and> s2) \<and> st' = st \<and> r = n' # ns')"
    (is "?L \<longleftrightarrow> ?R")
proof
  assume ?L
  from walk_nodes_Cons_Inr [OF this] obtain n' s1 st1 ns' s2 where
    wn: "walk en g n st = Inr (n', s1, st1)" and
    wns: "walk_nodes en g ns st1 = Inr (ns', s2, st')" and
    b: "b = (s1 \<and> s2)" and r: "r = n' # ns'"
    by blast
  have st1: "st1 = st" by (rule walk_state [OF wn])
  have st': "st' = st" using walk_nodes_state [OF wns] st1 by simp
  from wn wns st1 st' b r show ?R by blast
next
  assume ?R
  then show ?L by auto
qed

lemma walk_children_None_iff:
  "walk_children en g (None # cs) st = Inr (r, b, st') \<longleftrightarrow>
     (\<exists>cs'. walk_children en g cs st = Inr (cs', b, st) \<and> st' = st \<and> r = None # cs')"
    (is "?L \<longleftrightarrow> ?R")
proof
  assume ?L
  from walk_children_None_Inr [OF this] obtain cs' where
    w: "walk_children en g cs st = Inr (cs', b, st')" and r: "r = None # cs'"
    by blast
  have "st' = st" by (rule walk_children_state [OF w])
  with w r show ?R by blast
next
  assume ?R
  then show ?L by auto
qed

lemma walk_children_Some_iff:
  "walk_children en g (Some c # cs) st = Inr (r, b, st') \<longleftrightarrow>
     (\<exists>c' s1 cs' s2.
        walk en g c st = Inr (c', s1, st) \<and> walk_children en g cs st = Inr (cs', s2, st) \<and>
        b = (s1 \<and> s2) \<and> st' = st \<and> r = Some c' # cs')"
    (is "?L \<longleftrightarrow> ?R")
proof
  assume ?L
  from walk_children_Some_Inr [OF this] obtain c' s1 st1 cs' s2 where
    wc: "walk en g c st = Inr (c', s1, st1)" and
    wcs: "walk_children en g cs st1 = Inr (cs', s2, st')" and
    b: "b = (s1 \<and> s2)" and r: "r = Some c' # cs'"
    by blast
  have st1: "st1 = st" by (rule walk_state [OF wc])
  have st': "st' = st" using walk_children_state [OF wcs] st1 by simp
  from wc wcs st1 st' b r show ?R by blast
next
  assume ?R
  then show ?L by auto
qed

lemmas visit_iffs =
  visit_Arrow_iff visit_Member_iff visit_Property_iff visit_ObjectPattern_iff
  visit_ArrayPattern_iff visit_RestElement_iff visit_AssignmentPattern_iff visit_Node_iff
  walk_nodes_Cons_iff walk_children_None_iff walk_children_Some_iff


declare visit.simps(2-9) [simp del] walk_nodes.simps(2) [simp del]
  walk_children.simps(2,3) [simp del]

lemma walk_kind:
  "walk en g n st = Inr (n', b, st') \<Longrightarrow> is_kind k n' = is_kind k n"
  by (cases n) (auto simp: walk_iff visit_iffs is_kind_def split: option.splits if_splits)

lemma global_in_scope_extends:
  "global_in_scope g st \<Longrightarrow> extractParams ps st = Inr st1 \<Longrightarrow> global_in_scope g st1"
  by (auto simp: global_in_scope_def split: option.splits dest!: extractParams_extends)

lemma walk_flag_all:
  "\<forall>n' b. walk en g n st = Inr (n', b, st) \<longrightarrow> b = no_free st n \<and> (b \<longrightarrow> n' = n)"
  "\<forall>n' b. visit en g n st = Inr (n', b, st) \<longrightarrow> b = no_free st n \<and> (b \<longrightarrow> n' = n)"
  "\<forall>ns' b. walk_nodes en g ns st = Inr (ns', b, st)
     \<longrightarrow> b = no_free_nodes st ns \<and> (b \<longrightarrow> ns' = ns)"
  "\<forall>cs' b. walk_children en g cs st = Inr (cs', b, st)
     \<longrightarrow> b = no_free_children st cs \<and> (b \<longrightarrow> cs' = cs)"
  by (induction en g n st and en g n st and en g ns st and en g cs st rule: walk_induct)
     (fastforce simp: walk_iff visit_iffs split: if_splits option.splits)+

lemma walk_same: "walk en g n st = Inr (n', True, st') \<Longrightarrow> n' = n"
  using walk_flag_all(1) [of en g n st] walk_state [of en g n st n' True st'] by blast

lemma walk_nodes_same: "walk_nodes en g ns st = Inr (ns', True, st') \<Longrightarrow> ns' = ns"
  using walk_flag_all(3) [of en g ns st] walk_nodes_state [of en g ns st ns' True st'] by blast

lemma walk_children_same: "walk_children en g cs st = Inr (cs', True, st') \<Longrightarrow> cs' = cs"
  using walk_flag_all(4) [of en g cs st] walk_children_state [of en g cs st cs' True st'] by blast


lemma visit_Arrow_out:
  "visit en g (ArrowFunctionExpression ps body a) st = Inr (n', b, st') \<longleftrightarrow>
     (\<exists>st1 body'.
        \<not> is_kind BlockStatement body \<and> extractParams ps st = Inr st1 \<and>
        walk en g body st1 = Inr (body', b, st1) \<and> st' = st \<and>
        n' = ArrowFunctionExpression ps body' a)"
  by (fastforce simp: visit_Arrow_iff dest: walk_same split: if_splits)

lemma visit_Member_out:
  "visit en g (MemberExpression ob p c opt) st = Inr (n', b, st') \<longleftrightarrow>
     (\<exists>ob' s1 p' s2.
        \<not> is_kind Super ob \<and> \<not> is_kind PrivateIdentifier p \<and>
        walk en g ob st = Inr (ob', s1, st) \<and>
        (if c then walk en g p st = Inr (p', s2, st) else p' = p \<and> s2) \<and>
        b = (s1 \<and> s2) \<and> st' = st \<and> n' = MemberExpression ob' p' c opt)"
  by (fastforce simp: visit_Member_iff dest: walk_same split: if_splits)

lemma visit_Property_out:
  "visit en g (Property k v c s) st = Inr (n', b, st') \<longleftrightarrow>
     (\<exists>k' s1 v' s2.
        \<not> is_kind PrivateIdentifier k \<and>
        (if c then walk en g k st = Inr (k', s1, st) else k' = k \<and> s1) \<and>
        walk en g v st = Inr (v', s2, st) \<and>
        b = (s1 \<and> s2) \<and> st' = st \<and> n' = Property k' v' c s)"
  by (fastforce simp: visit_Property_iff dest: walk_same split: if_splits)

lemma visit_ObjectPattern_out:
  "visit en g (ObjectPattern ps) st = Inr (n', b, st') \<longleftrightarrow>
     (\<exists>ps'. walk_nodes en g ps st = Inr (ps', b, st) \<and> st' = st \<and> n' = ObjectPattern ps')"
  by (fastforce simp: visit_ObjectPattern_iff dest: walk_nodes_same split: if_splits)

lemma visit_ArrayPattern_out:
  "visit en g (ArrayPattern es) st = Inr (n', b, st') \<longleftrightarrow>
     (\<exists>es'. walk_children en g es st = Inr (es', b, st) \<and> st' = st \<and> n' = ArrayPattern es')"
  by (fastforce simp: visit_ArrayPattern_iff dest: walk_children_same split: if_splits)

lemma visit_RestElement_out:
  "visit en g (RestElement a) st = Inr (n', b, st') \<longleftrightarrow>
     (\<exists>a'. walk en g a st = Inr (a', b, st) \<and> st' = st \<and> n' = RestElement a')"
  by (fastforce simp: visit_RestElement_iff dest: walk_same split: if_splits)

lemma visit_AssignmentPattern_out:
  "visit en g (AssignmentPattern l r) st = Inr (n', b, st') \<longleftrightarrow>
     (\<exists>l' s1 r' s2.
        walk en g l st = Inr (l', s1, st) \<and> walk en g r st = Inr (r', s2, st) \<and>
        b = (s1 \<and> s2) \<and> st' = st \<and> n' = AssignmentPattern l' r')"
  by (fastforce simp: visit_AssignmentPattern_iff dest: walk_same split: if_splits)

lemma visit_Node_out:
  "visit en g (Node k opr cs) st = Inr (n', b, st') \<longleftrightarrow>
     (\<exists>cs'. walk_children en g cs st = Inr (cs', b, st) \<and> st' = st \<and> n' = Node k opr cs')"
  by (fastforce simp: visit_Node_iff dest: walk_children_same split: if_splits)

lemmas visit_outs =
  visit_Arrow_out visit_Member_out visit_Property_out visit_ObjectPattern_out
  visit_ArrayPattern_out visit_RestElement_out visit_AssignmentPattern_out visit_Node_out
  walk_nodes_Cons_iff walk_children_None_iff walk_children_Some_iff


lemma walk_Identifier_global:
  assumes "global_in_scope (Some x) st" and "x = ''this'' \<longrightarrow> enableThis en"
  shows "walk en (Some x) (MemberExpression (global_object x) (Identifier name) False False) st
           = Inr (MemberExpression (global_object x) (Identifier name) False False, True, st)"
  using assms
  by (auto simp: walk.simps visit.simps(2-9) global_object_def
        global_in_scope_def is_kind_def ok_def test_def)

lemma walk_Arrow_same:
  assumes "ENTER en (ArrowFunctionExpression ps body a) = Inr ()"
    and "\<not> is_kind BlockStatement body" and "extractParams ps st = Inr st1"
    and "walk en g body st1 = Inr (body, True, st1)"
  shows "walk en g (ArrowFunctionExpression ps body a) st
           = Inr (ArrowFunctionExpression ps body a, True, st)"
  using assms extractParams_take [of ps st st1]
  by (simp add: walk.simps [of en g "ArrowFunctionExpression ps body a"] visit.simps(2))

lemma walk_Member_same:
  assumes "\<not> is_kind Super ob" and "\<not> is_kind PrivateIdentifier p"
    and "walk en g ob st = Inr (ob, True, st)"
    and "c \<Longrightarrow> walk en g p st = Inr (p, True, st)"
  shows "walk en g (MemberExpression ob p c opt) st
           = Inr (MemberExpression ob p c opt, True, st)"
  using assms
  by (simp add: walk.simps [of en g "MemberExpression ob p c opt"] visit.simps(3) ok_def)

lemma walk_Property_same:
  assumes "\<not> is_kind PrivateIdentifier k"
    and "c \<Longrightarrow> walk en g k st = Inr (k, True, st)"
    and "walk en g v st = Inr (v, True, st)"
  shows "walk en g (Property k v c s) st = Inr (Property k v c s, True, st)"
  using assms
  by (simp add: walk.simps [of en g "Property k v c s"] visit.simps(4) ok_def)

lemma walk_AssignmentPattern_same:
  assumes "walk en g l st = Inr (l, True, st)" and "walk en g r st = Inr (r, True, st)"
  shows "walk en g (AssignmentPattern l r) st = Inr (AssignmentPattern l r, True, st)"
  using assms by (simp add: walk.simps [of en g "AssignmentPattern l r"] visit.simps(8))

lemma walk_RestElement_same:
  assumes "walk en g a st = Inr (a, True, st)"
  shows "walk en g (RestElement a) st = Inr (RestElement a, True, st)"
  using assms by (simp add: walk.simps [of en g "RestElement a"] visit.simps(7))

lemma walk_ObjectPattern_same:
  assumes "walk_nodes en g ps st = Inr (ps, True, st)"
  shows "walk en g (ObjectPattern ps) st = Inr (ObjectPattern ps, True, st)"
  using assms by (simp add: walk.simps [of en g "ObjectPattern ps"] visit.simps(5))

lemma walk_ArrayPattern_same:
  assumes "walk_children en g es st = Inr (es, True, st)"
  shows "walk en g (ArrayPattern es) st = Inr (ArrayPattern es, True, st)"
  using assms by (simp add: walk.simps [of en g "ArrayPattern es"] visit.simps(6))

lemma walk_Node_same:
  assumes "ENTER en (Node k opr cs) = Inr ()"
    and "walk_children en g cs' st = Inr (cs', True, st)"
  shows "walk en g (Node k opr cs') st = Inr (Node k opr cs', True, st)"
  using assms by (simp add: walk.simps [of en g "Node k opr cs'"] visit.simps(9))

lemma walk_nodes_Cons_same:
  assumes "walk en g n st = Inr (n, True, st)" and "walk_nodes en g ns st = Inr (ns, True, st)"
  shows "walk_nodes en g (n # ns) st = Inr (n # ns, True, st)"
  using assms by (simp add: walk_nodes.simps)

lemma walk_children_None_same:
  assumes "walk_children en g cs st = Inr (cs, True, st)"
  shows "walk_children en g (None # cs) st = Inr (None # cs, True, st)"
  using assms by (simp add: walk_children.simps)

lemma walk_children_Some_same:
  assumes "walk en g c st = Inr (c, True, st)"
    and "walk_children en g cs st = Inr (cs, True, st)"
  shows "walk_children en g (Some c # cs) st = Inr (Some c # cs, True, st)"
  using assms by (simp add: walk_children.simps)


text \<open>Walking the result of a walk again changes nothing.\<close>

lemma walk_idem_all:
  "\<forall>n' b. global_in_scope g st \<longrightarrow> this_admitted en g \<longrightarrow>
     walk en g n st = Inr (n', b, st) \<longrightarrow> walk en g n' st = Inr (n', True, st)"
  "\<forall>n' b. global_in_scope g st \<longrightarrow> this_admitted en g \<longrightarrow> ENTER en n = Inr () \<longrightarrow>
     visit en g n st = Inr (n', b, st) \<longrightarrow> walk en g n' st = Inr (n', True, st)"
  "\<forall>ns' b. global_in_scope g st \<longrightarrow> this_admitted en g \<longrightarrow>
     walk_nodes en g ns st = Inr (ns', b, st) \<longrightarrow> walk_nodes en g ns' st = Inr (ns', True, st)"
  "\<forall>cs' b. global_in_scope g st \<longrightarrow> this_admitted en g \<longrightarrow>
     walk_children en g cs st = Inr (cs', b, st)
     \<longrightarrow> walk_children en g cs' st = Inr (cs', True, st)"
proof (induction en g n st and en g n st and en g ns st and en g cs st rule: walk_induct)
  case (walk en g n st)
  then show ?case by (simp add: walk_iff)
next
  case (Identifier en g name st)
  show ?case
  proof (intro allI impI)
    fix n' b
    assume gs: "global_in_scope g st" and th: "this_admitted en g"
      and v: "visit en g (Identifier name) st = Inr (n', b, st)"
    show "walk en g n' st = Inr (n', True, st)"
    proof (cases "name \<in> set st")
      case True
      with v show ?thesis by (auto simp: walk.simps)
    next
      case False
      with v obtain x where x: "g = Some x"
        and n': "n' = MemberExpression (global_object x) (Identifier name) False False"
        by (auto split: option.splits)
      from th x have "x = ''this'' \<longrightarrow> enableThis en" by (simp add: this_admitted_def)
      with gs x n' show ?thesis using walk_Identifier_global [of x st en name] by simp
    qed
  qed
next
  case (Arrow en g ps body a st)
  show ?case
  proof (intro allI impI)
    fix n' b
    assume gs: "global_in_scope g st" and th: "this_admitted en g"
      and en: "ENTER en (ArrowFunctionExpression ps body a) = Inr ()"
      and v: "visit en g (ArrowFunctionExpression ps body a) st = Inr (n', b, st)"
    from v obtain st1 body' where
      nb: "\<not> is_kind BlockStatement body" and ex: "extractParams ps st = Inr st1" and
      wb: "walk en g body st1 = Inr (body', b, st1)" and
      n': "n' = ArrowFunctionExpression ps body' a"
      unfolding visit_Arrow_out by blast
    have 1: "walk en g body' st1 = Inr (body', True, st1)"
      using Arrow.IH [OF nb ex] global_in_scope_extends [OF gs ex] th wb by blast
    have 2: "\<not> is_kind BlockStatement body'"
      using walk_kind [OF wb] nb by simp
    have 3: "ENTER en (ArrowFunctionExpression ps body' a) = Inr ()"
      using en by simp
    show "walk en g n' st = Inr (n', True, st)"
      unfolding n' by (rule walk_Arrow_same [OF 3 2 ex 1])
  qed
next
  case (Member en g ob p c opt st)
  show ?case
  proof (intro allI impI)
    fix n' b
    assume gs: "global_in_scope g st" and th: "this_admitted en g"
      and v: "visit en g (MemberExpression ob p c opt) st = Inr (n', b, st)"
    from v obtain ob' s1 p' s2 where
      ns: "\<not> is_kind Super ob" and np: "\<not> is_kind PrivateIdentifier p" and
      wo: "walk en g ob st = Inr (ob', s1, st)" and
      wp: "if c then walk en g p st = Inr (p', s2, st) else p' = p \<and> s2" and
      n': "n' = MemberExpression ob' p' c opt"
      unfolding visit_Member_out by blast
    have 1: "walk en g ob' st = Inr (ob', True, st)"
      using Member.IH(1) [OF ns np] gs th wo by blast
    have 2: "\<not> is_kind Super ob'" using walk_kind [OF wo] ns by simp
    have 3: "\<not> is_kind PrivateIdentifier p'"
    proof (cases c)
      case True
      with wp have "walk en g p st = Inr (p', s2, st)" by simp
      from walk_kind [OF this] np show ?thesis by simp
    next
      case False
      with wp np show ?thesis by simp
    qed
    have 4: "walk en g p' st = Inr (p', True, st)" if c
    proof -
      from wp that have "walk en g p st = Inr (p', s2, st)" by simp
      then show ?thesis using Member.IH(2) [OF ns np wo that] gs th by blast
    qed
    show "walk en g n' st = Inr (n', True, st)"
      unfolding n' by (rule walk_Member_same [OF 2 3 1 4])
  qed
next
  case (Property en g k v c s st)
  show ?case
  proof (intro allI impI)
    fix n' b
    assume gs: "global_in_scope g st" and th: "this_admitted en g"
      and vi: "visit en g (Property k v c s) st = Inr (n', b, st)"
    from vi obtain k' s1 v' s2 where
      nk: "\<not> is_kind PrivateIdentifier k" and
      wk: "if c then walk en g k st = Inr (k', s1, st) else k' = k \<and> s1" and
      wv: "walk en g v st = Inr (v', s2, st)" and
      n': "n' = Property k' v' c s"
      unfolding visit_Property_out by blast
    have wk0: "(if c then walk en g k st else Inr (k, True, st)) = Inr (k', s1, st)"
      using wk by (cases c) auto
    have 1: "\<not> is_kind PrivateIdentifier k'"
    proof (cases c)
      case True
      with wk have "walk en g k st = Inr (k', s1, st)" by simp
      from walk_kind [OF this] nk show ?thesis by simp
    next
      case False
      with wk nk show ?thesis by simp
    qed
    have 2: "walk en g k' st = Inr (k', True, st)" if c
    proof -
      from wk that have "walk en g k st = Inr (k', s1, st)" by simp
      then show ?thesis using Property.IH(1) [OF nk that] gs th by blast
    qed
    have 3: "walk en g v' st = Inr (v', True, st)"
      using Property.IH(2) [OF nk wk0] gs th wv by blast
    show "walk en g n' st = Inr (n', True, st)"
      unfolding n' by (rule walk_Property_same [OF 1 2 3])
  qed
next
  case (ObjectPattern en g ps st)
  show ?case
  proof (intro allI impI)
    fix n' b
    assume gs: "global_in_scope g st" and th: "this_admitted en g"
      and v: "visit en g (ObjectPattern ps) st = Inr (n', b, st)"
    from v obtain ps' where
      w: "walk_nodes en g ps st = Inr (ps', b, st)" and n': "n' = ObjectPattern ps'"
      unfolding visit_ObjectPattern_out by blast
    have "walk_nodes en g ps' st = Inr (ps', True, st)"
      using ObjectPattern.IH gs th w by blast
    then show "walk en g n' st = Inr (n', True, st)"
      unfolding n' by (rule walk_ObjectPattern_same)
  qed
next
  case (ArrayPattern en g es st)
  show ?case
  proof (intro allI impI)
    fix n' b
    assume gs: "global_in_scope g st" and th: "this_admitted en g"
      and v: "visit en g (ArrayPattern es) st = Inr (n', b, st)"
    from v obtain es' where
      w: "walk_children en g es st = Inr (es', b, st)" and n': "n' = ArrayPattern es'"
      unfolding visit_ArrayPattern_out by blast
    have "walk_children en g es' st = Inr (es', True, st)"
      using ArrayPattern.IH gs th w by blast
    then show "walk en g n' st = Inr (n', True, st)"
      unfolding n' by (rule walk_ArrayPattern_same)
  qed
next
  case (RestElement en g a st)
  show ?case
  proof (intro allI impI)
    fix n' b
    assume gs: "global_in_scope g st" and th: "this_admitted en g"
      and v: "visit en g (RestElement a) st = Inr (n', b, st)"
    from v obtain a' where wa: "walk en g a st = Inr (a', b, st)" and n': "n' = RestElement a'"
      unfolding visit_RestElement_out by blast
    have "walk en g a' st = Inr (a', True, st)"
      using RestElement.IH gs th wa by blast
    then show "walk en g n' st = Inr (n', True, st)"
      unfolding n' by (rule walk_RestElement_same)
  qed
next
  case (AssignmentPattern en g l r st)
  show ?case
  proof (intro allI impI)
    fix n' b
    assume gs: "global_in_scope g st" and th: "this_admitted en g"
      and v: "visit en g (AssignmentPattern l r) st = Inr (n', b, st)"
    from v obtain l' s1 r' s2 where
      wl: "walk en g l st = Inr (l', s1, st)" and wr: "walk en g r st = Inr (r', s2, st)" and
      n': "n' = AssignmentPattern l' r'"
      unfolding visit_AssignmentPattern_out by blast
    have 1: "walk en g l' st = Inr (l', True, st)"
      using AssignmentPattern.IH(1) gs th wl by blast
    have 2: "walk en g r' st = Inr (r', True, st)"
      using AssignmentPattern.IH(2) [OF wl] gs th wr by blast
    show "walk en g n' st = Inr (n', True, st)"
      unfolding n' by (rule walk_AssignmentPattern_same [OF 1 2])
  qed
next
  case (Node en g k opr cs st)
  show ?case
  proof (intro allI impI)
    fix n' b
    assume gs: "global_in_scope g st" and th: "this_admitted en g"
      and en: "ENTER en (Node k opr cs) = Inr ()"
      and v: "visit en g (Node k opr cs) st = Inr (n', b, st)"
    from v obtain cs' where
      wc: "walk_children en g cs st = Inr (cs', b, st)" and n': "n' = Node k opr cs'"
      unfolding visit_Node_out by blast
    have 1: "walk_children en g cs' st = Inr (cs', True, st)"
      using Node.IH gs th wc by blast
    show "walk en g n' st = Inr (n', True, st)"
      unfolding n' by (rule walk_Node_same [OF en 1])
  qed
next
  case (Nil en g st)
  show ?case by simp
next
  case (Cons en g n ns st)
  show ?case
  proof (intro allI impI)
    fix r b
    assume gs: "global_in_scope g st" and th: "this_admitted en g"
      and w: "walk_nodes en g (n # ns) st = Inr (r, b, st)"
    from w obtain n' s1 ns' s2 where
      wn: "walk en g n st = Inr (n', s1, st)" and
      wns: "walk_nodes en g ns st = Inr (ns', s2, st)" and r: "r = n' # ns'"
      unfolding walk_nodes_Cons_iff by blast
    have 1: "walk en g n' st = Inr (n', True, st)"
      using Cons.IH(1) gs th wn by blast
    have 2: "walk_nodes en g ns' st = Inr (ns', True, st)"
      using Cons.IH(2) [OF wn] gs th wns by blast
    show "walk_nodes en g r st = Inr (r, True, st)"
      unfolding r by (rule walk_nodes_Cons_same [OF 1 2])
  qed
next
  case (CNil en g st)
  show ?case by simp
next
  case (CNone en g cs st)
  show ?case
  proof (intro allI impI)
    fix r b
    assume gs: "global_in_scope g st" and th: "this_admitted en g"
      and w: "walk_children en g (None # cs) st = Inr (r, b, st)"
    from w obtain cs' where
      wcs: "walk_children en g cs st = Inr (cs', b, st)" and r: "r = None # cs'"
      unfolding walk_children_None_iff by blast
    have "walk_children en g cs' st = Inr (cs', True, st)"
      using CNone.IH gs th wcs by blast
    then show "walk_children en g r st = Inr (r, True, st)"
      unfolding r by (rule walk_children_None_same)
  qed
next
  case (CSome en g c cs st)
  show ?case
  proof (intro allI impI)
    fix r b
    assume gs: "global_in_scope g st" and th: "this_admitted en g"
      and w: "walk_children en g (Some c # cs) st = Inr (r, b, st)"
    from w obtain c' s1 cs' s2 where
      wc: "walk en g c st = Inr (c', s1, st)" and
      wcs: "walk_children en g cs st = Inr (cs', s2, st)" and r: "r = Some c' # cs'"
      unfolding walk_children_Some_iff by blast
    have 1: "walk en g c' st = Inr (c', True, st)"
      using CSome.IH(1) gs th wc by blast
    have 2: "walk_children en g cs' st = Inr (cs', True, st)"
      using CSome.IH(2) [OF wc] gs th wcs by blast
    show "walk_children en g r st = Inr (r, True, st)"
      unfolding r by (rule walk_children_Some_same [OF 1 2])
  qed
qed


text \<open>
  The result of a walk passes the policy check, but for the this-expression of a member
  expression built for the global binding, and has no free identifier.
\<close>

lemma walk_admitted_all:
  "\<forall>n' b. global_in_scope g st \<longrightarrow> walk en g n st = Inr (n', b, st)
     \<longrightarrow> admitted en g n' \<and> no_free st n'"
  "\<forall>n' b. global_in_scope g st \<longrightarrow> ENTER en n = Inr () \<longrightarrow> visit en g n st = Inr (n', b, st)
     \<longrightarrow> admitted en g n' \<and> no_free st n'"
  "\<forall>ns' b. global_in_scope g st \<longrightarrow> walk_nodes en g ns st = Inr (ns', b, st)
     \<longrightarrow> admitted_nodes en g ns' \<and> no_free_nodes st ns'"
  "\<forall>cs' b. global_in_scope g st \<longrightarrow> walk_children en g cs st = Inr (cs', b, st)
     \<longrightarrow> admitted_children en g cs' \<and> no_free_children st cs'"
proof (induction en g n st and en g n st and en g ns st and en g cs st rule: walk_induct)
  case (walk en g n st)
  then show ?case by (simp add: walk_iff)
next
  case (Identifier en g name st)
  show ?case
    by (auto simp: global_object_def global_in_scope_def global_this_access_def
          split: option.splits if_splits)
next
  case (Arrow en g ps body a st)
  show ?case
  proof (intro allI impI)
    fix n' b
    assume gs: "global_in_scope g st"
      and en: "ENTER en (ArrowFunctionExpression ps body a) = Inr ()"
      and v: "visit en g (ArrowFunctionExpression ps body a) st = Inr (n', b, st)"
    from v obtain st1 body' where
      nb: "\<not> is_kind BlockStatement body" and ex: "extractParams ps st = Inr st1" and
      wb: "walk en g body st1 = Inr (body', b, st1)" and
      n': "n' = ArrowFunctionExpression ps body' a"
      unfolding visit_Arrow_out by blast
    have 1: "admitted en g body' \<and> no_free st1 body'"
      using Arrow.IH [OF nb ex] global_in_scope_extends [OF gs ex] wb by blast
    have 2: "ENTER en (ArrowFunctionExpression ps body' a) = Inr ()"
      using en by simp
    show "admitted en g n' \<and> no_free st n'"
      unfolding n' using 1 2 ex by simp
  qed
next
  case (Node en g k opr cs st)
  show ?case
  proof (intro allI impI)
    fix n' b
    assume gs: "global_in_scope g st"
      and en: "ENTER en (Node k opr cs) = Inr ()"
      and v: "visit en g (Node k opr cs) st = Inr (n', b, st)"
    from v obtain cs' where
      wc: "walk_children en g cs st = Inr (cs', b, st)" and n': "n' = Node k opr cs'"
      unfolding visit_Node_out by blast
    have 1: "admitted_children en g cs' \<and> no_free_children st cs'"
      using Node.IH gs wc by blast
    have 2: "ENTER en (Node k opr cs') = Inr ()"
      using en by simp
    show "admitted en g n' \<and> no_free st n'"
      unfolding n' using 1 2 by (simp del: ENTER.simps)
  qed
qed (auto simp: walk_iff visit_outs split: if_splits)

text \<open>
  The input of a successful walk passes the policy check, and the result is the input
  rewritten as the spec says.
\<close>

lemma walk_spec_rewrite_all:
  "\<forall>n' b. walk en g n st = Inr (n', b, st) \<longrightarrow> n' = spec_rewrite g st n"
  "\<forall>n' b. visit en g n st = Inr (n', b, st) \<longrightarrow> n' = spec_rewrite g st n"
  "\<forall>ns' b. walk_nodes en g ns st = Inr (ns', b, st) \<longrightarrow> ns' = spec_rewrite_nodes g st ns"
  "\<forall>cs' b. walk_children en g cs st = Inr (cs', b, st) \<longrightarrow> cs' = spec_rewrite_children g st cs"
  by (induction en g n st and en g n st and en g ns st and en g cs st rule: walk_induct)
     (fastforce simp: walk_iff visit_outs split: if_splits option.splits)+

lemma walk_input_allowed_all:
  "\<forall>n' b. walk en g n st = Inr (n', b, st) \<longrightarrow> allowed en n"
  "\<forall>n' b. ENTER en n = Inr () \<longrightarrow> visit en g n st = Inr (n', b, st) \<longrightarrow> allowed en n"
  "\<forall>ns' b. walk_nodes en g ns st = Inr (ns', b, st) \<longrightarrow> allowed_nodes en ns"
  "\<forall>cs' b. walk_children en g cs st = Inr (cs', b, st) \<longrightarrow> allowed_children en cs"
  by (induction en g n st and en g n st and en g ns st and en g cs st rule: walk_induct)
     (fastforce simp: walk_iff visit_outs simp del: ENTER.simps split: if_splits option.splits)+

section \<open>Walks of the subtrees\<close>








section \<open>The walker never writes to an object\<close>

lemma extends_basic:
  "extends (ret x)" "extends (throw e)" "extends (lift r)" "extends (fetch a)"
  "extends (alloc ob)" "extends current_scope" "extends (push name)" "extends (splice n)"
  by (simp_all add: extends_def ret_def throw_def lift_def fetch_def alloc_def
        current_scope_def push_def splice_def)

lemma extends_seq:
  assumes m: "extends m" and f: "\<And>x. extends (f x)"
  shows "extends (seq m f)"
  unfolding extends_def
proof
  fix h
  obtain h' r where mh: "m h = (h', r)" by (cases "m h")
  from m obtain new1 where 1: "objects h' = objects h @ new1"
    using mh by (auto simp: extends_def dest: spec [of _ h])
  show "\<exists>new. objects (fst (seq m f h)) = objects h @ new"
  proof (cases r)
    case (Inl e)
    with mh 1 show ?thesis by (simp add: seq_def)
  next
    case (Inr x)
    from f [of x] obtain new2 where "objects (fst (f x h')) = objects h' @ new2"
      by (auto simp: extends_def dest: spec [of _ h'])
    with mh 1 Inr show ?thesis by (simp add: seq_def)
  qed
qed

lemma oextract_extends:
  "extends (oextractDeclaration d a)"
  "extends (oextractProperties d ps)"
  "extends (oextractElements d es)"
  by (induction d a and d ps and d es
      rule: oextractDeclaration_oextractProperties_oextractElements.induct)
     (auto intro!: extends_seq extends_basic split: obj.split)

lemma oextractParams_extends: "extends (oextractParams d ps)"
  by (induction ps) (auto intro!: extends_seq extends_basic oextract_extends)

lemma owalk_extends:
  "extends (owalk d en g a)"
  "extends (ovisit d en g a ob)"
  "extends (owalk_nodes d en g ns)"
  "extends (owalk_children d en g cs)"
  by (induction d en g a and d en g a ob and d en g ns and d en g cs
      rule: owalk_ovisit_owalk_nodes_owalk_children.induct)
     (auto intro!: extends_seq extends_basic oextractParams_extends split: option.split)

lemma same_or_new_basic:
  "returns_same_or_new a (ret a)" "returns_same_or_new a (throw e)"
  "returns_same_or_new a (alloc ob)"
  by (simp_all add: returns_same_or_new_def ret_def throw_def alloc_def)

lemma same_or_new_seq:
  assumes m: "extends m" and f: "\<And>x. returns_same_or_new a (f x)"
  shows "returns_same_or_new a (seq m f)"
  unfolding returns_same_or_new_def
proof
  fix h
  obtain h' r where mh: "m h = (h', r)" by (cases "m h")
  from m obtain new1 where 1: "objects h' = objects h @ new1"
    using mh by (auto simp: extends_def dest: spec [of _ h])
  show "case snd (seq m f h) of Inl e \<Rightarrow> True | Inr r \<Rightarrow> r = a \<or> length (objects h) \<le> r"
  proof (cases r)
    case (Inl e)
    with mh show ?thesis by (simp add: seq_def)
  next
    case (Inr x)
    from f [of x] have "case snd (f x h') of Inl e \<Rightarrow> True
                        | Inr r \<Rightarrow> r = a \<or> length (objects h') \<le> r"
      by (simp add: returns_same_or_new_def)
    with mh 1 Inr show ?thesis by (auto simp: seq_def split: sum.splits)
  qed
qed

lemma ovisit_same_or_new: "returns_same_or_new a (ovisit d en g a ob)"
  by (cases ob)
     (auto intro!: same_or_new_seq same_or_new_basic extends_seq extends_basic owalk_extends
        oextractParams_extends split: option.split)

lemma owalk_same_or_new: "returns_same_or_new a (owalk d en g a)"
  by (cases d)
     (auto intro!: same_or_new_seq same_or_new_basic extends_basic ovisit_same_or_new)

section \<open>The walker on the store and the walker on trees\<close>

subsection \<open>Computations that return\<close>



subsection \<open>The tree at an address, in a store that grows\<close>

lemma tree_of_append_all:
  "(\<forall>a n. tree_of k s a = Some n \<longrightarrow> tree_of k (s @ new) a = Some n) \<and>
   (\<forall>as ns. trees_of k s as = Some ns \<longrightarrow> trees_of k (s @ new) as = Some ns) \<and>
   (\<forall>cs ns. children_of k s cs = Some ns \<longrightarrow> children_of k (s @ new) cs = Some ns)"
proof (induction k)
  case 0
  have 1: "\<forall>as ns. trees_of 0 s as = Some ns \<longrightarrow> trees_of 0 (s @ new) as = Some ns"
  proof (intro allI)
    fix as ns show "trees_of 0 s as = Some ns \<longrightarrow> trees_of 0 (s @ new) as = Some ns"
      by (cases as) simp_all
  qed
  have 2: "\<forall>cs ns. children_of 0 s cs = Some ns \<longrightarrow> children_of 0 (s @ new) cs = Some ns"
  proof (intro allI)
    fix cs :: "addr option list" and ns
    show "children_of 0 s cs = Some ns \<longrightarrow> children_of 0 (s @ new) cs = Some ns"
    proof (induction cs arbitrary: ns)
      case Nil
      show ?case by simp
    next
      case (Cons c cs)
      then show ?case by (cases c) auto
    qed
  qed
  from 1 2 show ?case by simp
next
  case (Suc k)
  have t: "tree_of (Suc k) (s @ new) a = Some n" if "tree_of (Suc k) s a = Some n" for a n
  proof -
    from that have a: "a < length s" by (simp split: if_splits)
    show ?thesis
      using that a Suc
      by (cases "s ! a") (auto simp: nth_append split: option.splits)
  qed
  have 1: "\<forall>as ns. trees_of (Suc k) s as = Some ns \<longrightarrow> trees_of (Suc k) (s @ new) as = Some ns"
  proof (intro allI)
    fix as ns
    show "trees_of (Suc k) s as = Some ns \<longrightarrow> trees_of (Suc k) (s @ new) as = Some ns"
    proof (induction as arbitrary: ns)
      case Nil
      show ?case by simp
    next
      case (Cons a as)
      show ?case using Cons t [of a] by (auto simp del: tree_of.simps split: option.splits)
    qed
  qed
  have 2: "\<forall>cs ns. children_of (Suc k) s cs = Some ns
             \<longrightarrow> children_of (Suc k) (s @ new) cs = Some ns"
  proof (intro allI)
    fix cs :: "addr option list" and ns
    show "children_of (Suc k) s cs = Some ns \<longrightarrow> children_of (Suc k) (s @ new) cs = Some ns"
    proof (induction cs arbitrary: ns)
      case Nil
      show ?case by simp
    next
      case (Cons c cs)
      show ?case
      proof (cases c)
        case None
        with Cons show ?thesis by auto
      next
        case (Some a)
        with Cons t [of a] show ?thesis by (auto simp del: tree_of.simps split: option.splits)
      qed
    qed
  qed
  from t 1 2 show ?case by blast
qed



lemma children_of_append:
  "children_of k s cs = Some ns \<Longrightarrow> children_of k (s @ new) cs = Some ns"
  using tree_of_append_all by blast


lemma tree_of_Some: "tree_of k s a = Some n \<Longrightarrow> \<exists>d. k = Suc d \<and> a < length s"
  by (cases k) (simp_all split: if_splits)

lemma tree_of_Identifier:
  "s ! a = OIdentifier name \<Longrightarrow> tree_of k s a = Some n \<Longrightarrow> n = Identifier name"
  by (cases k) (simp_all split: if_splits)

lemma tree_of_ObjectPattern:
  "s ! a = OObjectPattern ps \<Longrightarrow> tree_of k s a = Some n \<Longrightarrow>
     \<exists>d nps. k = Suc d \<and> trees_of d s ps = Some nps \<and> n = ObjectPattern nps"
  by (cases k) (auto split: if_splits)

lemma tree_of_ArrayPattern:
  "s ! a = OArrayPattern es \<Longrightarrow> tree_of k s a = Some n \<Longrightarrow>
     \<exists>d nes. k = Suc d \<and> children_of d s es = Some nes \<and> n = ArrayPattern nes"
  by (cases k) (auto split: if_splits)

lemma tree_of_RestElement:
  "s ! a = ORestElement arg \<Longrightarrow> tree_of k s a = Some n \<Longrightarrow>
     \<exists>d narg. k = Suc d \<and> tree_of d s arg = Some narg \<and> n = RestElement narg"
  by (cases k) (auto split: if_splits)

lemma tree_of_AssignmentPattern:
  "s ! a = OAssignmentPattern l r \<Longrightarrow> tree_of k s a = Some n \<Longrightarrow>
     \<exists>d nl nr. k = Suc d \<and> tree_of d s l = Some nl \<and> tree_of d s r = Some nr \<and>
               n = AssignmentPattern nl nr"
  by (cases k) (auto split: if_splits option.splits)

lemma tree_of_Property:
  "s ! a = OProperty ky v c sh \<Longrightarrow> tree_of k s a = Some n \<Longrightarrow>
     \<exists>d nk nv. k = Suc d \<and> tree_of d s ky = Some nk \<and> tree_of d s v = Some nv \<and>
               n = Property nk nv c sh"
  by (cases k) (auto split: if_splits option.splits)

lemma tree_of_MemberExpression:
  "s ! a = OMemberExpression ob p c opt \<Longrightarrow> tree_of k s a = Some n \<Longrightarrow>
     \<exists>d nob np. k = Suc d \<and> tree_of d s ob = Some nob \<and> tree_of d s p = Some np \<and>
                n = MemberExpression nob np c opt"
  by (cases k) (auto split: if_splits option.splits)

lemma tree_of_ArrowFunctionExpression:
  "s ! a = OArrowFunctionExpression ps b async \<Longrightarrow> tree_of k s a = Some n \<Longrightarrow>
     \<exists>d nps nb. k = Suc d \<and> trees_of d s ps = Some nps \<and> tree_of d s b = Some nb \<and>
                n = ArrowFunctionExpression nps nb async"
  by (cases k) (auto split: if_splits option.splits)

lemma tree_of_Node:
  "s ! a = ONode kd opr cs \<Longrightarrow> tree_of k s a = Some n \<Longrightarrow>
     \<exists>d ncs. k = Suc d \<and> children_of d s cs = Some ncs \<and> n = Node kd opr ncs"
  by (cases k) (auto split: if_splits)






subsection \<open>Simulation\<close>




lemma extends_length:
  "extends m \<Longrightarrow> m h = (h', r) \<Longrightarrow> \<exists>new. objects h' = objects h @ new"
  by (auto simp: extends_def dest: spec [of _ h])



subsection \<open>Positions\<close>





















subsection \<open>The result on the store\<close>

lemma tree_of_intros:
  "a < length s \<Longrightarrow> s ! a = OIdentifier name \<Longrightarrow> tree_of (Suc d) s a = Some (Identifier name)"
  "a < length s \<Longrightarrow> s ! a = OObjectPattern ps \<Longrightarrow> trees_of d s ps = Some nps \<Longrightarrow>
     tree_of (Suc d) s a = Some (ObjectPattern nps)"
  "a < length s \<Longrightarrow> s ! a = OArrayPattern es \<Longrightarrow> children_of d s es = Some nes \<Longrightarrow>
     tree_of (Suc d) s a = Some (ArrayPattern nes)"
  "a < length s \<Longrightarrow> s ! a = ORestElement arg \<Longrightarrow> tree_of d s arg = Some narg \<Longrightarrow>
     tree_of (Suc d) s a = Some (RestElement narg)"
  "a < length s \<Longrightarrow> s ! a = OAssignmentPattern l r \<Longrightarrow> tree_of d s l = Some nl \<Longrightarrow>
     tree_of d s r = Some nr \<Longrightarrow> tree_of (Suc d) s a = Some (AssignmentPattern nl nr)"
  "a < length s \<Longrightarrow> s ! a = OProperty ky v c sh \<Longrightarrow> tree_of d s ky = Some nk \<Longrightarrow>
     tree_of d s v = Some nv \<Longrightarrow> tree_of (Suc d) s a = Some (Property nk nv c sh)"
  "a < length s \<Longrightarrow> s ! a = OMemberExpression ob p c opt \<Longrightarrow> tree_of d s ob = Some nob \<Longrightarrow>
     tree_of d s p = Some np \<Longrightarrow> tree_of (Suc d) s a = Some (MemberExpression nob np c opt)"
  "a < length s \<Longrightarrow> s ! a = OArrowFunctionExpression ps b async \<Longrightarrow>
     trees_of d s ps = Some nps \<Longrightarrow> tree_of d s b = Some nb \<Longrightarrow>
     tree_of (Suc d) s a = Some (ArrowFunctionExpression nps nb async)"
  "a < length s \<Longrightarrow> s ! a = ONode kd opr cs \<Longrightarrow> children_of d s cs = Some ncs \<Longrightarrow>
     tree_of (Suc d) s a = Some (Node kd opr ncs)"
  by simp_all

lemma tree_of_Suc_all:
  "(\<forall>a n. tree_of k s a = Some n \<longrightarrow> tree_of (Suc k) s a = Some n) \<and>
   (\<forall>as ns. trees_of k s as = Some ns \<longrightarrow> trees_of (Suc k) s as = Some ns) \<and>
   (\<forall>cs ns. children_of k s cs = Some ns \<longrightarrow> children_of (Suc k) s cs = Some ns)"
proof (induction k)
  case 0
  have 1: "\<forall>as ns. trees_of 0 s as = Some ns \<longrightarrow> trees_of (Suc 0) s as = Some ns"
  proof (intro allI)
    fix as ns show "trees_of 0 s as = Some ns \<longrightarrow> trees_of (Suc 0) s as = Some ns"
      by (cases as) simp_all
  qed
  have 2: "\<forall>cs ns. children_of 0 s cs = Some ns \<longrightarrow> children_of (Suc 0) s cs = Some ns"
  proof (intro allI)
    fix cs :: "addr option list" and ns
    show "children_of 0 s cs = Some ns \<longrightarrow> children_of (Suc 0) s cs = Some ns"
    proof (induction cs arbitrary: ns)
      case Nil
      show ?case by simp
    next
      case (Cons c cs)
      then show ?case by (cases c) auto
    qed
  qed
  from 1 2 show ?case by simp
next
  case (Suc k)
  have t: "tree_of (Suc (Suc k)) s a = Some n" if h: "tree_of (Suc k) s a = Some n" for a n
  proof -
    from tree_of_Some [OF h] have a: "a < length s" by blast
    show ?thesis
    proof (cases "s ! a")
      case (OIdentifier name)
      from tree_of_Identifier [OF OIdentifier h] tree_of_intros(1) [OF a OIdentifier]
      show ?thesis by simp
    next
      case (OObjectPattern ps)
      from tree_of_ObjectPattern [OF OObjectPattern h] obtain nps where
        "trees_of k s ps = Some nps" "n = ObjectPattern nps" by auto
      with Suc tree_of_intros(2) [OF a OObjectPattern, of "Suc k" nps] show ?thesis by blast
    next
      case (OArrayPattern es)
      from tree_of_ArrayPattern [OF OArrayPattern h] obtain nes where
        "children_of k s es = Some nes" "n = ArrayPattern nes" by auto
      with Suc tree_of_intros(3) [OF a OArrayPattern, of "Suc k" nes] show ?thesis by blast
    next
      case (ORestElement arg)
      from tree_of_RestElement [OF ORestElement h] obtain narg where
        "tree_of k s arg = Some narg" "n = RestElement narg" by auto
      with Suc tree_of_intros(4) [OF a ORestElement, of "Suc k" narg] show ?thesis by blast
    next
      case (OAssignmentPattern l r)
      from tree_of_AssignmentPattern [OF OAssignmentPattern h] obtain nl nr where
        "tree_of k s l = Some nl" "tree_of k s r = Some nr" "n = AssignmentPattern nl nr"
        by auto
      with Suc tree_of_intros(5) [OF a OAssignmentPattern, of "Suc k" nl nr] show ?thesis
        by blast
    next
      case (OProperty ky v c sh)
      from tree_of_Property [OF OProperty h] obtain nk nv where
        "tree_of k s ky = Some nk" "tree_of k s v = Some nv" "n = Property nk nv c sh"
        by auto
      with Suc tree_of_intros(6) [OF a OProperty, of "Suc k" nk nv] show ?thesis by blast
    next
      case (OMemberExpression ob p c opt)
      from tree_of_MemberExpression [OF OMemberExpression h] obtain nob np where
        "tree_of k s ob = Some nob" "tree_of k s p = Some np"
        "n = MemberExpression nob np c opt" by auto
      with Suc tree_of_intros(7) [OF a OMemberExpression, of "Suc k" nob np] show ?thesis
        by blast
    next
      case (OArrowFunctionExpression ps b async)
      from tree_of_ArrowFunctionExpression [OF OArrowFunctionExpression h] obtain nps nb where
        "trees_of k s ps = Some nps" "tree_of k s b = Some nb"
        "n = ArrowFunctionExpression nps nb async" by auto
      with Suc tree_of_intros(8) [OF a OArrowFunctionExpression, of "Suc k" nps nb]
      show ?thesis by blast
    next
      case (ONode kd opr cs)
      from tree_of_Node [OF ONode h] obtain ncs where
        "children_of k s cs = Some ncs" "n = Node kd opr ncs" by auto
      with Suc tree_of_intros(9) [OF a ONode, of "Suc k" ncs] show ?thesis by blast
    qed
  qed
  have 1: "\<forall>as ns. trees_of (Suc k) s as = Some ns \<longrightarrow> trees_of (Suc (Suc k)) s as = Some ns"
  proof (intro allI)
    fix as ns
    show "trees_of (Suc k) s as = Some ns \<longrightarrow> trees_of (Suc (Suc k)) s as = Some ns"
    proof (induction as arbitrary: ns)
      case Nil
      show ?case by simp
    next
      case (Cons a as)
      show ?case using Cons t [of a] by (auto simp del: tree_of.simps split: option.splits)
    qed
  qed
  have 2: "\<forall>cs ns. children_of (Suc k) s cs = Some ns
             \<longrightarrow> children_of (Suc (Suc k)) s cs = Some ns"
  proof (intro allI)
    fix cs :: "addr option list" and ns
    show "children_of (Suc k) s cs = Some ns \<longrightarrow> children_of (Suc (Suc k)) s cs = Some ns"
    proof (induction cs arbitrary: ns)
      case Nil
      show ?case by simp
    next
      case (Cons c cs)
      show ?case
      proof (cases c)
        case None
        with Cons show ?thesis by auto
      next
        case (Some a)
        with Cons t [of a] show ?thesis by (auto simp del: tree_of.simps split: option.splits)
      qed
    qed
  qed
  from t 1 2 show ?case by blast
qed



lemma children_of_mono:
  "children_of k s cs = Some ns \<Longrightarrow> k \<le> k' \<Longrightarrow> children_of k' s cs = Some ns"
proof (induction k')
  case 0
  then show ?case by simp
next
  case (Suc k')
  show ?case
  proof (cases "k = Suc k'")
    case True
    with Suc.prems show ?thesis by simp
  next
    case False
    with Suc.prems have "k \<le> k'" by simp
    from Suc.IH [OF Suc.prems(1) this] tree_of_Suc_all [of k' s] show ?thesis by blast
  qed
qed




lemma children_of_lift:
  "children_of k s cs = Some ns \<Longrightarrow> k \<le> k' \<Longrightarrow> children_of k' (s @ new) cs = Some ns"
  by (rule children_of_append [OF children_of_mono])

lemma ovisit_grows:
  "ovisit d en g a ob h = (h', r) \<Longrightarrow> \<exists>new. objects h' = objects h @ new"
  by (erule extends_length [OF owalk_extends(2)])


subsection \<open>Reuse at every position\<close>




section \<open>Evaluating the walker on the examples\<close>

lemmas walk_eval =
  walk.simps visit.simps(2-9) walk_nodes.simps(2) walk_children.simps(2,3) test_def ok_def
  is_kind_def global_object_def default_enables_def transform_def check_global_def

lemmas run_eval =
  otransform_def seq_def lift_def ret_def throw_def fetch_def alloc_def current_scope_def
  push_def splice_def okind_def ok_def test_def check_global_def default_enables_def
  arrow_store_def

lemma isIdent_ascii_g: "isIdent ascii_host ''g''"
  by (simp add: isIdent_def IDENTIFIER_REGEX_def ascii_host_def)

lemma walk_nested_arrows:
  "walk default_enables (Some ''g'') nested_arrows [''g''] =
     Inr (ArrowFunctionExpression [Identifier ''a'']
            (ArrowFunctionExpression [Identifier ''b'']
               (Node BinaryExpression ''+''
                  [Some (Identifier ''a''),
                   Some (MemberExpression (Identifier ''g'') (Identifier ''d'') False False)])
               False)
            False,
          False, [''g''])"
  by (simp add: nested_arrows_def walk_eval)

lemma transform_nested_arrows:
  "transform ascii_host nested_arrows [''g''] (Some ''g'') default_enables =
     Inr (ArrowFunctionExpression [Identifier ''a'']
            (ArrowFunctionExpression [Identifier ''b'']
               (Node BinaryExpression ''+''
                  [Some (Identifier ''a''),
                   Some (MemberExpression (Identifier ''g'') (Identifier ''d'') False False)])
               False)
            False)"
  using isIdent_ascii_g walk_nested_arrows by (simp add: transform_def check_global_def)

lemma walk_nested_arrows_bound:
  "walk default_enables None nested_arrows [''d''] = Inr (nested_arrows, True, [''d''])"
  by (simp add: nested_arrows_def walk_eval)



lemma transform_this_a:
  "transform ascii_host (Identifier ''a'') [] (Some ''this'') default_enables = Inr this_a"
  by (simp add: this_a_def walk_eval)

text \<open>
  A this-expression of the input is rejected under the global binding \<open>this\<close>
  too, and \<open>admitted\<close> does not let it pass.
\<close>

lemma transform_call_with_this:
  "transform ascii_host call_with_this [''f''] (Some ''this'') default_enables =
     Inl (SyntaxError ''expression ThisExpression is disabled'') \<and>
   \<not> admitted default_enables (Some ''this'') call_with_this"
  by (simp add: call_with_this_def walk_eval isIdent_def IDENTIFIER_REGEX_def ascii_host_def)



section \<open>The claims\<close>

text \<open>
  C6: for every pattern the scanner appends to the scope exactly the names the pattern
  binds, in the order of section 4.2 (identifier: its name; object pattern: each entry's
  value or rest target, never a key; array pattern: the present elements; rest element:
  its target; default-value pattern: its left-hand side only), and any other pattern kind
  is an error of the scan itself. For \<open>({a: {a: [, a], ...c}, c: b = 2})\<close> the
  appended names are \<open>a\<close>, \<open>c\<close>, \<open>b\<close>: the set \<open>{a, b, c}\<close>.
\<close>

theorem extractDeclaration_appends_bound_names:
  "(bound_names p = Some ns \<longrightarrow> extractDeclaration p scope = Inr (scope @ ns)) \<and>
   (bound_names p = None \<longrightarrow> pattern_error (extractDeclaration p scope)) \<and>
   extractDeclaration complex_pattern scope = Inr (scope @ [''a'', ''c'', ''b'']) \<and>
   set (case extractDeclaration complex_pattern [] of Inl e \<Rightarrow> [] | Inr names \<Rightarrow> names)
     = {''a'', ''b'', ''c''}"
proof -
  have ex: "bound_names complex_pattern = Some [''a'', ''c'', ''b'']"
    by (simp add: complex_pattern_def)
  have run: "extractDeclaration complex_pattern sc = Inr (sc @ [''a'', ''c'', ''b''])" for sc
    using extract_Some(1) [of complex_pattern sc] ex by simp
  have "set (case extractDeclaration complex_pattern [] of Inl e \<Rightarrow> [] | Inr names \<Rightarrow> names)
          = {''a'', ''b'', ''c''}"
    by (simp add: run insert_commute)
  then show ?thesis
    using extract_Some(1) [of p scope] extract_None(1) [of p scope] run by blast
qed

theorem extractDeclaration_appends_bound_names_witness:
  "bound_names (ArrayPattern [None, Some (Identifier ''a''), Some (RestElement (Identifier ''r''))])
     = Some [''a'', ''r''] \<and>
   extractDeclaration
     (ArrayPattern [None, Some (Identifier ''a''), Some (RestElement (Identifier ''r''))]) [''x'']
     = Inr [''x'', ''a'', ''r''] \<and>
   bound_names (ObjectPattern [Identifier ''a'']) = None \<and>
   extractDeclaration (ObjectPattern [Identifier ''a'']) [''x'']
     = Inl (SyntaxError ''unknown ObjectPattern syntax'')"
  using extractDeclaration_appends_bound_names
          [of "ArrayPattern [None, Some (Identifier ''a''), Some (RestElement (Identifier ''r''))]"
              "[''a'', ''r'']" "[''x'']"]
        extractDeclaration_appends_bound_names [of "ObjectPattern [Identifier ''a'']" "[]" "[''x'']"]
  by simp

text \<open>
  C4: an identifier leaf whose name is in the current scope list is returned unchanged;
  otherwise, with no global binding, the walk fails with the reference error naming the
  identifier (and so does \<open>transform\<close> on the expression \<open>a\<close> with no parameters
  and no global binding); otherwise the result is a non-computed member expression whose
  object is a this-expression when the global binding is \<open>this\<close> and an identifier
  naming the global binding when it is not, and whose property is an identifier with the
  original name. Only membership in the scope list is consulted.
\<close>

theorem identifier_resolution:
  "walk en global (Identifier name) state =
     (if name \<in> set state then Inr (Identifier name, True, state)
      else case global of
        None \<Rightarrow>
          Inl (ReferenceError
                 (''variable '' @ [CHR 0x27] @ name @ [CHR 0x27] @ '' is not defined''))
      | Some g \<Rightarrow>
          Inr (MemberExpression
                 (if g = ''this'' then Node ThisExpression [] [] else Identifier g)
                 (Identifier name) False False,
               False, state)) \<and>
   transform h (Identifier name) [] None en =
     Inl (ReferenceError (''variable '' @ [CHR 0x27] @ name @ [CHR 0x27] @ '' is not defined''))"
  by (simp add: transform_def check_global_def global_object_def walk.simps
        split: option.splits)

theorem identifier_resolution_witness:
  "walk default_enables (Some ''g'') (Identifier ''a'') [''a'', ''g'']
     = Inr (Identifier ''a'', True, [''a'', ''g'']) \<and>
   walk default_enables (Some ''g'') (Identifier ''b'') [''a'', ''g'']
     = Inr (MemberExpression (Identifier ''g'') (Identifier ''b'') False False, False,
            [''a'', ''g'']) \<and>
   walk default_enables (Some ''this'') (Identifier ''b'') [''a'']
     = Inr (MemberExpression (Node ThisExpression [] []) (Identifier ''b'') False False, False,
            [''a'']) \<and>
   walk default_enables None (Identifier ''b'') [''a'']
     = Inl (ReferenceError (''variable '' @ [CHR 0x27] @ ''b'' @ [CHR 0x27] @ '' is not defined'')) \<and>
   transform ascii_host (Identifier ''a'') [] None default_enables
     = Inl (ReferenceError (''variable '' @ [CHR 0x27] @ ''a'' @ [CHR 0x27] @ '' is not defined''))"
  using identifier_resolution [of default_enables "Some ''g''" "''a''" "[''a'', ''g'']" ascii_host]
        identifier_resolution [of default_enables "Some ''g''" "''b''" "[''a'', ''g'']" ascii_host]
        identifier_resolution [of default_enables "Some ''this''" "''b''" "[''a'']" ascii_host]
        identifier_resolution [of default_enables None "''b''" "[''a'']" ascii_host]
        identifier_resolution [of default_enables None "''a''" "[]" ascii_host]
  by simp

text \<open>
  C3, as the spec states it: with the empty parameter list, the global binding \<open>g\<close>
  and the expression \<open>a\<close>, the call succeeds. The code refuses this call, since the
  global binding is neither \<open>this\<close> nor in the parameter list.
\<close>

theorem global_not_in_params_counterexample:
  "transform ascii_host (Identifier ''a'') [] (Some ''g'') default_enables =
     Inl (SyntaxError (''global object name '' @ [CHR 0x27] @ ''g'' @ [CHR 0x27] @
                       '' is not in parameter list''))"
  by (simp add: transform_def check_global_def)

text \<open>
  C3, amended: with the parameter list \<open>[g]\<close> (a valid identifier), the global binding
  \<open>g\<close> and the expression \<open>a\<close>, the call succeeds under every configuration and
  returns the non-computed member expression whose object is the identifier \<open>g\<close> and
  whose property is the identifier \<open>a\<close>.
\<close>

theorem global_captures_free_identifier:
  "isIdent h ''g'' \<Longrightarrow>
   transform h (Identifier ''a'') [''g''] (Some ''g'') en =
     Inr (MemberExpression (Identifier ''g'') (Identifier ''a'') False False)"
  by (simp add: transform_def check_global_def global_object_def walk.simps)

theorem global_captures_free_identifier_witness:
  "isIdent ascii_host ''g'' \<and>
   transform ascii_host (Identifier ''a'') [''g''] (Some ''g'') default_enables =
     Inr (MemberExpression (Identifier ''g'') (Identifier ''a'') False False)"
proof -
  have g: "isIdent ascii_host ''g''"
    by (simp add: isIdent_def IDENTIFIER_REGEX_def ascii_host_def)
  show ?thesis
    using g global_captures_free_identifier [OF g, of default_enables] by simp
qed

text \<open>
  C7: on a unary or binary operator node the policy check raises the syntax error naming
  the operator if and only if the operator is \<open>delete\<close> with the update switch off, or
  one of \<open>typeof\<close>, \<open>in\<close>, \<open>instanceof\<close> with the inspect switch off; in every
  other case the node is admitted. A rejection is the result of walking the node, and of
  \<open>transform\<close> on it once the parameter checks have passed.
\<close>

theorem operator_policy:
  "k = UnaryExpression \<or> k = BinaryExpression \<Longrightarrow>
   (ENTER en (Node k opr cs) = Inl (SyntaxError (''operator '' @ opr @ '' is disabled''))
      \<longleftrightarrow> (opr = ''delete'' \<and> \<not> enableUpdate en) \<or>
          (opr \<in> {''typeof'', ''in'', ''instanceof''} \<and> \<not> enableInspect en)) \<and>
   (ENTER en (Node k opr cs) \<noteq> Inl (SyntaxError (''operator '' @ opr @ '' is disabled''))
      \<longrightarrow> ENTER en (Node k opr cs) = Inr ()) \<and>
   (ENTER en (Node k opr cs) = Inl e
      \<longrightarrow> walk en global (Node k opr cs) state = Inl e \<and>
          (check_params h params = Inr () \<and> check_global params global = Inr ()
             \<longrightarrow> transform h (Node k opr cs) params global en = Inl e))"
  by (auto simp: test_def transform_def walk.simps)

theorem operator_policy_witness:
  "ENTER default_enables (Node UnaryExpression ''typeof'' [Some (Identifier ''a'')])
     = Inl (SyntaxError ''operator typeof is disabled'') \<and>
   transform ascii_host (Node UnaryExpression ''typeof'' [Some (Identifier ''a'')]) [''a''] None
     default_enables = Inl (SyntaxError ''operator typeof is disabled'') \<and>
   ENTER default_enables (Node BinaryExpression ''+'' [Some (Identifier ''a''), Some (Identifier ''b'')])
     = Inr ()"
proof -
  have a: "isIdent ascii_host ''a''"
    by (simp add: isIdent_def IDENTIFIER_REGEX_def ascii_host_def)
  show ?thesis
    using a
      operator_policy [of UnaryExpression default_enables "''typeof''" "[Some (Identifier ''a'')]"
        "SyntaxError ''operator typeof is disabled''" None "[''a'']" ascii_host "[''a'']"]
      operator_policy [of BinaryExpression default_enables "''+''"
        "[Some (Identifier ''a''), Some (Identifier ''b'')]"]
    by (simp add: default_enables_def check_global_def)
qed

section \<open>Scope restoration\<close>

text \<open>
  C5: whenever an arrow function node has been processed, at any depth and with any
  scope list, the scope list afterwards has the length it had before (it is the same
  list), whether the body was rewritten or not.
\<close>

theorem arrow_scope_restored:
  "walk en global (ArrowFunctionExpression params body async) state = Inr (n', same, state')
   \<Longrightarrow> length state' = length state \<and> state' = state"
  using walk_state [of en global "ArrowFunctionExpression params body async" state n' same state']
  by simp

theorem arrow_scope_restored_witness:
  "(\<exists>n'. walk default_enables (Some ''g'') nested_arrows [''g''] = Inr (n', False, [''g''])) \<and>
   (\<exists>n'. walk default_enables None nested_arrows [''d''] = Inr (n', True, [''d''])) \<and>
   length [''g''] = length [''g'']"
  using walk_nested_arrows walk_nested_arrows_bound
    arrow_scope_restored [of default_enables "Some ''g''" "[Identifier ''a'']" _ False "[''g'']"]
  by (simp add: nested_arrows_def)

section \<open>Structural reuse\<close>



section \<open>Idempotence\<close>

text \<open>
  C9, as the spec states it: running \<open>transform\<close> again on its own output, with the
  same parameters and configuration, gives the output back. With the global binding
  \<open>this\<close> and the \<open>this\<close> switch off (the default), the output of the first run
  holds a this-expression and the second run rejects it.
\<close>

theorem not_idempotent_with_this_counterexample:
  "transform ascii_host (Identifier ''a'') [] (Some ''this'') default_enables = Inr this_a \<and>
   transform ascii_host this_a [] (Some ''this'') default_enables =
     Inl (SyntaxError ''expression ThisExpression is disabled'')"
  by (simp add: this_a_def walk_eval)

text \<open>
  C9, amended: if the global binding is not \<open>this\<close>, or the \<open>this\<close> switch is on,
  then whenever \<open>transform\<close> succeeds with output \<open>t\<close>, running it again on
  \<open>t\<close> with the same parameter list, global binding and configuration succeeds and
  returns \<open>t\<close>.
\<close>

theorem transform_idempotent:
  assumes "global \<noteq> Some ''this'' \<or> enableThis en"
    and "transform h ast params global en = Inr t"
  shows "transform h t params global en = Inr t"
proof -
  from assms(2) obtain same st where
    cp: "check_params h params = Inr ()" and cg: "check_global params global = Inr ()" and
    w: "walk en global ast params = Inr (t, same, st)"
    by (auto simp: transform_def bind_Inr)
  have st: "st = params" by (rule walk_state [OF w])
  have gs: "global_in_scope global params"
    using cg by (auto simp: check_global_def global_in_scope_def split: option.splits if_splits)
  have th: "this_admitted en global"
    using assms(1) by (auto simp: this_admitted_def)
  have "walk en global t params = Inr (t, True, params)"
    using walk_idem_all(1) [of global params en ast] gs th w st by blast
  with cp cg show ?thesis by (simp add: transform_def)
qed

theorem transform_idempotent_witness:
  "Some ''g'' \<noteq> Some ''this'' \<and>
   (\<exists>t. transform ascii_host nested_arrows [''g''] (Some ''g'') default_enables = Inr t \<and>
        transform ascii_host t [''g''] (Some ''g'') default_enables = Inr t)"
  using transform_nested_arrows
    transform_idempotent [of "Some ''g''" default_enables ascii_host nested_arrows "[''g'']"]
  by simp

section \<open>What a successful transform guarantees\<close>

text \<open>
  C1, as the spec states it: the tree returned by \<open>transform\<close> has no node kind that
  the configuration disallows. With the global binding \<open>this\<close> and the default
  configuration, the expression \<open>a\<close> becomes \<open>this.a\<close>, which holds a
  this-expression although the \<open>this\<close> switch is off.
\<close>

theorem output_has_disallowed_this_counterexample:
  "transform ascii_host (Identifier ''a'') [] (Some ''this'') default_enables = Inr this_a \<and>
   \<not> allowed default_enables this_a"
  by (simp add: this_a_def walk_eval)

text \<open>
  C1, amended: when \<open>transform\<close> succeeds, the input passes the policy check at
  every position the walker reaches (all positions but the parameter patterns of arrow
  functions and the non-computed property names and keys), and the returned tree is the
  input with each free identifier at such a position replaced by a non-computed member
  expression on the global binding that has the identifier as its property, everything
  else being as in the input. So the returned tree passes the policy check at every such
  position but one kind: the this-expression that is the object of a member expression
  built for the global binding \<open>this\<close>; and every identifier of the returned tree at
  such a position is a member of the parameter list or of the names bound by the
  parameters of an enclosing arrow function.
\<close>

theorem transform_certifies:
  assumes "transform h ast params global en = Inr t"
  shows "allowed en ast \<and> t = spec_rewrite global params ast \<and>
         admitted en global t \<and> no_free params t"
proof -
  from assms obtain same st where
    cg: "check_global params global = Inr ()" and
    w: "walk en global ast params = Inr (t, same, st)"
    by (auto simp: transform_def bind_Inr)
  have st: "st = params" by (rule walk_state [OF w])
  have gs: "global_in_scope global params"
    using cg by (auto simp: check_global_def global_in_scope_def split: option.splits if_splits)
  have 1: "allowed en ast"
    using walk_input_allowed_all(1) [of en global ast params] w st by blast
  have 2: "t = spec_rewrite global params ast"
    using walk_spec_rewrite_all(1) [of en global ast params] w st by blast
  have 3: "admitted en global t \<and> no_free params t"
    using walk_admitted_all(1) [of global params en ast] gs w st by blast
  from 1 2 3 show ?thesis by simp
qed

theorem transform_certifies_witness:
  "transform ascii_host (Identifier ''a'') [] (Some ''this'') default_enables = Inr this_a \<and>
   allowed default_enables (Identifier ''a'') \<and>
   this_a = spec_rewrite (Some ''this'') [] (Identifier ''a'') \<and>
   admitted default_enables (Some ''this'') this_a \<and> no_free [] this_a \<and>
   transform ascii_host call_with_this [''f''] (Some ''this'') default_enables =
     Inl (SyntaxError ''expression ThisExpression is disabled'') \<and>
   \<not> admitted default_enables (Some ''this'') call_with_this"
  using transform_this_a transform_call_with_this
    transform_certifies [of ascii_host "Identifier ''a''" "[]" "Some ''this''" default_enables this_a]
  by simp

section \<open>Default values of arrow parameters\<close>

text \<open>
  C2 says that a default-value expression inside the parameter patterns of an arrow
  function is walked like any other sub-expression. The handler of arrow functions walks
  the body only: under the default configuration and with no global binding,
  \<open>(a = b++) => a\<close> is returned as it is, although \<open>b++\<close> is an update
  expression and \<open>b\<close> is not in scope. The same default value in the target of a
  destructuring assignment, \<open>[a = b++] = c\<close>, is walked: with updates enabled the
  walk fails on \<open>b\<close>.
\<close>

theorem arrow_default_not_walked:
  "transform ascii_host arrow_with_default [] None default_enables = Inr arrow_with_default \<and>
   transform ascii_host assignment_with_default [''a'', ''c''] None
     (default_enables\<lparr>enableUpdate := True\<rparr>)
     = Inl (ReferenceError (''variable '' @ [CHR 0x27] @ ''b'' @ [CHR 0x27] @ '' is not defined''))"
  by (simp add: arrow_with_default_def assignment_with_default_def walk_eval
        isIdent_def IDENTIFIER_REGEX_def ascii_host_def)

section \<open>The input tree is never mutated\<close>

lemma otransform_arrow_store:
  "otransform (Suc (Suc (Suc 0))) ascii_host 2 [''g''] (Some ''g'') default_enables arrow_store =
     (\<lparr>objects = arrow_store @
          [OIdentifier ''g'', OIdentifier ''d'', OMemberExpression 3 4 False False,
           OArrowFunctionExpression [0] 5 False],
        scope_array = [''g'']\<rparr>, Inr 6)"
  using isIdent_ascii_g by (simp add: run_eval)

lemma otransform_arrow_store_throws:
  "otransform (Suc (Suc (Suc 0))) ascii_host 2 [] None default_enables arrow_store =
     (\<lparr>objects = arrow_store, scope_array = [''b'']\<rparr>,
      Inl (ReferenceError (''variable '' @ [CHR 0x27] @ ''d'' @ [CHR 0x27] @ '' is not defined'')))"
  by (simp add: run_eval)

text \<open>
  C10: whatever the outcome of \<open>transform\<close> (a result, an exception of the code, or the
  exhaustion of the call stack), every object that was in the store before the call is
  in it afterwards at the same address with the same fields and children; the store has
  only grown by fresh objects, and a returned root is the input root or one of the fresh
  objects. The scope array is the only thing updated in place.
\<close>

theorem input_tree_not_mutated:
  assumes "otransform d h ast params global en objs = (heap', r)"
  shows "(\<exists>new. objects heap' = objs @ new) \<and>
         (\<forall>a. a < length objs \<longrightarrow> objects heap' ! a = objs ! a) \<and>
         (\<forall>root. r = Inr root \<longrightarrow> root = ast \<or> length objs \<le> root)"
proof -
  let ?m = "seq (lift (check_params h params)) (\<lambda>u.
            seq (lift (check_global params global)) (\<lambda>u. owalk d en global ast))"
  have e: "extends ?m"
    by (intro extends_seq extends_basic owalk_extends)
  have s: "returns_same_or_new ast ?m"
    by (intro same_or_new_seq extends_basic owalk_same_or_new)
  from assms have run: "?m \<lparr>objects = objs, scope_array = params\<rparr> = (heap', r)"
    by (simp add: otransform_def)
  from e run obtain new where new: "objects heap' = objs @ new"
    by (auto simp: extends_def dest: spec [of _ "\<lparr>objects = objs, scope_array = params\<rparr>"])
  have "root = ast \<or> length objs \<le> root" if "r = Inr root" for root
    using s run that
    by (auto simp: returns_same_or_new_def
          dest: spec [of _ "\<lparr>objects = objs, scope_array = params\<rparr>"])
  with new show ?thesis by (auto simp: nth_append)
qed

theorem input_tree_not_mutated_witness:
  "(\<exists>heap'. otransform (Suc (Suc (Suc 0))) ascii_host 2 [''g''] (Some ''g'') default_enables
              arrow_store = (heap', Inr 6) \<and>
            take 3 (objects heap') = arrow_store \<and>
            tree_of (Suc (Suc (Suc 0))) (objects heap') 2
              = tree_of (Suc (Suc (Suc 0))) arrow_store 2 \<and>
            Inr (the (tree_of (Suc (Suc (Suc 0))) (objects heap') 6))
              = transform ascii_host (the (tree_of (Suc (Suc (Suc 0))) arrow_store 2)) [''g'']
                  (Some ''g'') default_enables) \<and>
   (\<exists>heap' e. otransform (Suc (Suc (Suc 0))) ascii_host 2 [] None default_enables arrow_store
                = (heap', Inl e) \<and>
              objects heap' = arrow_store)"
  using otransform_arrow_store otransform_arrow_store_throws isIdent_ascii_g
    input_tree_not_mutated [OF otransform_arrow_store]
    input_tree_not_mutated [OF otransform_arrow_store_throws]
  by (simp add: arrow_store_def walk_eval)

end
